theory Spec2Isabelle
  imports Main "HOL-Library.Sublist"
begin

section \<open>Texts and character classes\<close>

text \<open>
  A Python \<open>str\<close> is a sequence of Unicode code points and is modelled as a list of
  integers, one per code point. \<open>ord\<close> is Python's \<open>ord\<close> on the characters
  that a literal of this theory can hold, and \<open>ustr\<close> turns such a literal into a text.
\<close>

type_synonym ustring = "int list"

definition ord :: "char \<Rightarrow> int" where
  "ord c = of_char c"

definition ustr :: "string \<Rightarrow> ustring" where
  "ustr s = map ord s"

definition nl :: int where
  "nl = 0x0A"

definition nbsp :: int where
  "nbsp = 0xA0"

text \<open>
  \<open>\d\<close> of a \<open>str\<close> pattern matches every Unicode decimal digit (category Nd), and
  \<open>\D\<close> everything else. The decimal digits come in runs of ten, from the character of
  value 0 to the character of value 9. \<open>wide_zeros\<close> lists the characters of value 0
  of Unicode 14.0 (CPython 3.11) other than \<open>0\<close> itself, all of them above U+065F.
\<close>

definition wide_zeros :: "int list" where
  "wide_zeros =
     [0x660, 0x6F0, 0x7C0, 0x966, 0x9E6, 0xA66, 0xAE6, 0xB66,
      0xBE6, 0xC66, 0xCE6, 0xD66, 0xDE6, 0xE50, 0xED0, 0xF20,
      0x1040, 0x1090, 0x17E0, 0x1810, 0x1946, 0x19D0, 0x1A80, 0x1A90,
      0x1B50, 0x1BB0, 0x1C40, 0x1C50, 0xA620, 0xA8D0, 0xA900, 0xA9D0,
      0xA9F0, 0xAA50, 0xABF0, 0xFF10, 0x104A0, 0x10D30, 0x11066, 0x110F0,
      0x11136, 0x111D0, 0x112F0, 0x11450, 0x114D0, 0x11650, 0x116C0, 0x11730,
      0x118E0, 0x11950, 0x11C50, 0x11D50, 0x11DA0, 0x16A60, 0x16AC0, 0x16B50,
      0x1D7CE, 0x1D7D8, 0x1D7E2, 0x1D7EC, 0x1D7F6, 0x1E140, 0x1E2F0, 0x1E950,
      0x1FBF0]"

definition is_digit :: "int \<Rightarrow> bool" where
  "is_digit c =
     (if c < 0x660 then 0x30 \<le> c \<and> c \<le> 0x39
      else list_ex (\<lambda>z. z \<le> c \<and> c \<le> z + 9) wide_zeros)"

text \<open>The white space of \<open>\s\<close> and of \<open>str.strip\<close> (\<open>str.isspace\<close>).\<close>

definition is_space :: "int \<Rightarrow> bool" where
  "is_space c =
     (c \<in> set [0x09, 0x0A, 0x0B, 0x0C, 0x0D, 0x1C, 0x1D, 0x1E, 0x1F, 0x20, 0x85, 0xA0,
                0x1680, 0x2000, 0x2001, 0x2002, 0x2003, 0x2004, 0x2005, 0x2006, 0x2007,
                0x2008, 0x2009, 0x200A, 0x2028, 0x2029, 0x202F, 0x205F, 0x3000])"

definition ascii_lower :: "int \<Rightarrow> int" where
  "ascii_lower c = (if 0x41 \<le> c \<and> c \<le> 0x5A then c + 0x20 else c)"

text \<open>
  \<open>re.IGNORECASE\<close> on one literal character \<open>p\<close> of a pattern, for \<open>p\<close> in ASCII
  (the patterns of the source hold no other character): the two cases of a letter, and
  besides them U+017F for \<open>s\<close>, U+0130 and U+0131 for \<open>i\<close>, U+212A for \<open>k\<close>.
\<close>

definition eq_ci :: "int \<Rightarrow> int \<Rightarrow> bool" where
  "eq_ci p c =
     (ascii_lower c = ascii_lower p
      \<or> (ascii_lower p = ord CHR ''s'' \<and> c = 0x17F)
      \<or> (ascii_lower p = ord CHR ''i'' \<and> (c = 0x130 \<or> c = 0x131))
      \<or> (ascii_lower p = ord CHR ''k'' \<and> c = 0x212A))"

text \<open>\<open>str.strip()\<close>: white space removed at both ends.\<close>

definition strip :: "ustring \<Rightarrow> ustring" where
  "strip s = rev (dropWhile is_space (rev (dropWhile is_space s)))"

text \<open>\<open>s.startswith(p)\<close>.\<close>

definition startswith :: "ustring \<Rightarrow> ustring \<Rightarrow> bool" where
  "startswith s p = (take (length p) s = p)"

text \<open>
  \<open>str.rfind\<close>: the highest index at which \<open>sub\<close> occurs, \<open>None\<close> standing for
  Python's \<open>-1\<close>. An occurrence at the front counts only when there is none further
  to the right.
\<close>

fun rfind :: "ustring \<Rightarrow> ustring \<Rightarrow> nat option" where
  "rfind [] sub = (if sub = [] then Some 0 else None)"
| "rfind (c # cs) sub =
     (case rfind cs sub of
        Some i \<Rightarrow> Some (Suc i)
      | None \<Rightarrow> if startswith (c # cs) sub then Some 0 else None)"


section \<open>The regular expressions of the page object\<close>

text \<open>
  The patterns of the source use only single characters and character classes, greedy
  repetitions \<open>*\<close>, \<open>+\<close>, \<open>{n,}\<close> of one class, and an optional group of literal
  alternatives. \<open>Many n p\<close> is \<open>p{n,}\<close>; \<open>Maybe alts\<close> is \<open>(?:a|b|...)?\<close>.
\<close>

datatype item = One "int \<Rightarrow> bool" | Many nat "int \<Rightarrow> bool" | Maybe "ustring list"

text \<open>
  The remainders left by a greedy repetition of \<open>p\<close>, in the order in which a
  backtracking matcher tries them: the longest run first, then one character less, down
  to no character at all.
\<close>

fun many_ends :: "(int \<Rightarrow> bool) \<Rightarrow> ustring \<Rightarrow> ustring list" where
  "many_ends p [] = [[]]"
| "many_ends p (c # cs) = (if p c then many_ends p cs @ [c # cs] else [c # cs])"

text \<open>
  All ways in which the pattern matches a prefix of the text, each given by the remainder
  of the text after the match, in the matcher's order of preference. Python reports the
  first of them.
\<close>

fun rex_ends :: "item list \<Rightarrow> ustring \<Rightarrow> ustring list" where
  "rex_ends [] s = [s]"
| "rex_ends (One p # r) s =
     (case s of [] \<Rightarrow> [] | c # cs \<Rightarrow> if p c then rex_ends r cs else [])"
| "rex_ends (Many n p # r) s =
     (let es = many_ends p s in concat (map (rex_ends r) (take (length es - n) es)))"
| "rex_ends (Maybe alts # r) s =
     concat (map (\<lambda>a. rex_ends r (drop (length a) s)) (filter (startswith s) alts))
     @ rex_ends r s"

text \<open>\<open>pattern.match\<close> at the start of \<open>s\<close>: the length of the match.\<close>

definition rex_match :: "item list \<Rightarrow> ustring \<Rightarrow> nat option" where
  "rex_match pat s =
     (case rex_ends pat s of [] \<Rightarrow> None | e # _ \<Rightarrow> Some (length s - length e))"

text \<open>\<open>pattern.search\<close>: start and length of the leftmost match.\<close>

fun rex_search :: "item list \<Rightarrow> ustring \<Rightarrow> (nat \<times> nat) option" where
  "rex_search pat [] = (case rex_match pat [] of None \<Rightarrow> None | Some n \<Rightarrow> Some (0, n))"
| "rex_search pat (c # cs) =
     (case rex_match pat (c # cs) of
        Some n \<Rightarrow> Some (0, n)
      | None \<Rightarrow> (case rex_search pat cs of
                   None \<Rightarrow> None
                 | Some (i, n) \<Rightarrow> Some (Suc i, n)))"

text \<open>
  \<open>pattern.finditer\<close>: the texts of the non-overlapping matches from left to right.
  The scan resumes where the last match ended (one character further after an empty
  match).
\<close>

function finditer :: "item list \<Rightarrow> ustring \<Rightarrow> ustring list" where
  "finditer pat s =
     (case rex_match pat s of
        None \<Rightarrow> (if s = [] then [] else finditer pat (tl s))
      | Some n \<Rightarrow> take n s # (if s = [] then [] else finditer pat (drop (max 1 n) s)))"
  by pat_completeness auto
termination
  by (relation "measure (\<lambda>(pat, s). length s)") auto

definition lit_ci :: "ustring \<Rightarrow> item list" where
  "lit_ci w = map (\<lambda>p. One (eq_ci p)) w"

text \<open>The class \<open>[\d\s().,\-]\<close>.\<close>

definition is_phone_char :: "int \<Rightarrow> bool" where
  "is_phone_char c = (is_digit c \<or> is_space c \<or> c \<in> set (ustr ''().,-''))"

text \<open>\<open>(?:\+|00)?\s*\d[\d\s().,\-]{6,}\d\<close>\<close>

definition PHONE_CANDIDATE_RE :: "item list" where
  "PHONE_CANDIDATE_RE =
     [Maybe [ustr ''+'', ustr ''00''], Many 0 is_space, One is_digit, Many 6 is_phone_char,
      One is_digit]"

text \<open>
  \<open>\n\s*-{10,}\s*\n\<close>, \<open>\n\s*SINIESTROS\s*\n\<close> and \<open>\n\s*NUMERO\s+FECHA\s+RESERVA\s+\<close>,
  the last two with \<open>re.IGNORECASE\<close>.
\<close>

definition CUT_DASHES :: "item list" where
  "CUT_DASHES =
     [One (\<lambda>c. c = nl), Many 0 is_space, Many 10 (\<lambda>c. c = ord CHR ''-''), Many 0 is_space,
      One (\<lambda>c. c = nl)]"

definition CUT_SINIESTROS :: "item list" where
  "CUT_SINIESTROS =
     [One (\<lambda>c. c = nl), Many 0 is_space] @ lit_ci (ustr ''SINIESTROS'')
       @ [Many 0 is_space, One (\<lambda>c. c = nl)]"

definition CUT_TABLA :: "item list" where
  "CUT_TABLA =
     [One (\<lambda>c. c = nl), Many 0 is_space] @ lit_ci (ustr ''NUMERO'') @ [Many 1 is_space]
       @ lit_ci (ustr ''FECHA'') @ [Many 1 is_space] @ lit_ci (ustr ''RESERVA'')
       @ [Many 1 is_space]"

definition CUT_PATTERNS :: "item list list" where
  "CUT_PATTERNS = [CUT_DASHES, CUT_SINIESTROS, CUT_TABLA]"


section \<open>The phone-number library\<close>

datatype PhoneNumberType =
  FIXED_LINE | MOBILE | FIXED_LINE_OR_MOBILE | TOLL_FREE | PREMIUM_RATE | SHARED_COST
  | VOIP | PERSONAL_NUMBER | PAGER | UAN | VOICEMAIL | UNKNOWN

datatype py_exception = NumberParseException | ModuleNotFoundError | OtherException

text \<open>
  The three functions of \<open>phonenumbers\<close> that the page object calls, over the library's
  own type \<open>'n\<close> of parsed numbers. \<open>parse\<close> may raise.
\<close>

record 'n phonenumbers_module =
  parse :: "ustring \<Rightarrow> py_exception + 'n"
  is_valid_number :: "'n \<Rightarrow> bool"
  number_type :: "'n \<Rightarrow> PhoneNumberType"


section \<open>Normalisation and classification\<close>

text \<open>Lines 258 to 286 of \<open>_normalizar_telefono\<close>, from the test for a leading \<open>+\<close> on.\<close>

definition normalizar_resto :: "ustring \<Rightarrow> ustring option" where
  "normalizar_resto s0 =
     (if startswith s0 (ustr ''+'') then
        (let s = ustr ''+'' @ filter is_digit (drop 1 s0)
         in if 8 \<le> length s - 1 \<and> length s - 1 \<le> 15 then Some s else None)
      else
        (let digits = filter is_digit s0 in
         if digits = [] then None
         else
           (let digits = (if startswith digits (ustr ''0'') \<and> length digits = 10
                              \<and> digits ! 1 \<in> set (ustr ''6789'')
                          then drop 1 digits else digits)
            in if startswith digits (ustr ''34'') \<and> length digits = 11
                    \<and> digits ! 2 \<in> set (ustr ''6789'')
               then Some (drop (length digits - 9) digits)
               else if length digits = 9 then Some digits
               else if 8 \<le> length digits \<and> length digits \<le> 15
                 then Some (ustr ''+'' @ digits)
               else None)))"

definition normalizar_telefono :: "ustring \<Rightarrow> ustring option" where
  "normalizar_telefono raw =
     (if raw = [] then None
      else
        (let s = strip raw;
             s = strip (map (\<lambda>c. if c = nbsp then ord CHR '' '' else c) s)
         in if startswith s (ustr ''00'') then
              (let rest_digits = filter is_digit (drop 2 s) in
               if length rest_digits = 9 \<and> rest_digits ! 0 \<in> set (ustr ''67'')
                 then Some rest_digits
               else if length rest_digits = 9 \<and> rest_digits ! 0 \<in> set (ustr ''89'')
                 then Some rest_digits
               else normalizar_resto (ustr ''+'' @ rest_digits))
            else normalizar_resto s))"

text \<open>
  \<open>_es_movil\<close>; the first argument is the value of the module's global name
  \<open>phonenumbers\<close>. Only \<open>NumberParseException\<close> is caught here.
\<close>

definition es_movil :: "'n phonenumbers_module option \<Rightarrow> ustring \<Rightarrow> py_exception + bool" where
  "es_movil phonenumbers tel_norm =
     (if tel_norm = [] then Inr False
      else if \<not> startswith tel_norm (ustr ''+'')
        then Inr (length tel_norm = 9 \<and> tel_norm ! 0 \<in> set (ustr ''67''))
      else
        (case phonenumbers of
           None \<Rightarrow> Inr True
         | Some lib \<Rightarrow>
             (case parse lib tel_norm of
                Inl e \<Rightarrow> (if e = NumberParseException then Inr False else Inl e)
              | Inr num \<Rightarrow>
                  if \<not> is_valid_number lib num then Inr False
                  else Inr (number_type lib num \<in> {MOBILE, FIXED_LINE_OR_MOBILE}))))"


section \<open>Extraction\<close>

text \<open>The loop of \<open>_extraer_numero_telefono\<close> over the candidates.\<close>

fun primer_movil ::
  "'n phonenumbers_module option \<Rightarrow> ustring list \<Rightarrow> py_exception + ustring option" where
  "primer_movil phonenumbers [] = Inr None"
| "primer_movil phonenumbers (candidato # rest) =
     (case normalizar_telefono candidato of
        None \<Rightarrow> primer_movil phonenumbers rest
      | Some tel \<Rightarrow>
          if tel = [] then primer_movil phonenumbers rest
          else
            (case es_movil phonenumbers tel of
               Inl e \<Rightarrow> Inl e
             | Inr ok \<Rightarrow> if ok then Inr (Some tel) else primer_movil phonenumbers rest))"

definition extraer_numero_telefono ::
  "'n phonenumbers_module option \<Rightarrow> ustring \<Rightarrow> py_exception + ustring option" where
  "extraer_numero_telefono phonenumbers texto =
     (if texto = [] then Inr None
      else primer_movil phonenumbers (finditer PHONE_CANDIDATE_RE texto))"

text \<open>
  Lines 173 to 185 of \<open>_buscar_en_seccion\<close>: the cut at the earliest delimiter and the
  cap of 400 characters.
\<close>

definition cut_step :: "ustring \<Rightarrow> item list \<Rightarrow> nat option \<Rightarrow> nat option" where
  "cut_step chunk pat cut_idx =
     (case rex_search pat chunk of
        None \<Rightarrow> cut_idx
      | Some (start, n) \<Rightarrow>
          (case cut_idx of
             None \<Rightarrow> Some start
           | Some i \<Rightarrow> if start < i then Some start else Some i))"

definition cortar_seccion :: "ustring \<Rightarrow> ustring" where
  "cortar_seccion chunk0 =
     (let cut_idx = fold (cut_step chunk0) CUT_PATTERNS None;
          chunk = (case cut_idx of None \<Rightarrow> chunk0 | Some i \<Rightarrow> take i chunk0)
      in take 400 chunk)"

text \<open>\<open>try: ... except Exception: return None\<close>\<close>

definition catch_all :: "py_exception + ustring option \<Rightarrow> ustring option" where
  "catch_all r = (case r of Inl e \<Rightarrow> None | Inr v \<Rightarrow> v)"

definition buscar_en_seccion ::
  "'n phonenumbers_module option \<Rightarrow> ustring \<Rightarrow> ustring \<Rightarrow> ustring option" where
  "buscar_en_seccion phonenumbers texto etiqueta_seccion =
     (case rfind texto etiqueta_seccion of
        None \<Rightarrow> None
      | Some pos \<Rightarrow>
          (let start = pos + length etiqueta_seccion;
               chunk = drop start texto
           in catch_all (extraer_numero_telefono phonenumbers (cortar_seccion chunk))))"

text \<open>
  \<open>\b\<close> between the character before and the character after a position. The table of
  \<open>\w\<close> belongs to the interpreter's Unicode database and is the parameter \<open>is_word\<close>
  of what follows.
\<close>

definition at_boundary :: "(int \<Rightarrow> bool) \<Rightarrow> int option \<Rightarrow> int option \<Rightarrow> bool" where
  "at_boundary is_word bef aft =
     ((case bef of None \<Rightarrow> False | Some c \<Rightarrow> is_word c)
      \<noteq> (case aft of None \<Rightarrow> False | Some c \<Rightarrow> is_word c))"

text \<open>
  The index of the leftmost match of \<open>\bHORA\b\<close> (with \<open>re.IGNORECASE\<close>) in \<open>s\<close>,
  \<open>bef\<close> being the character in front of \<open>s\<close>.
\<close>

fun search_HORA :: "(int \<Rightarrow> bool) \<Rightarrow> int option \<Rightarrow> ustring \<Rightarrow> nat option" where
  "search_HORA is_word bef [] = None"
| "search_HORA is_word bef (c # cs) =
     (if at_boundary is_word bef (Some c) \<and> length (c # cs) \<ge> 4
         \<and> list_all2 eq_ci (ustr ''HORA'') (take 4 (c # cs))
         \<and> at_boundary is_word (Some ((c # cs) ! 3))
              (case drop 4 (c # cs) of [] \<Rightarrow> None | d # _ \<Rightarrow> Some d)
      then Some 0
      else map_option Suc (search_HORA is_word (Some c) cs))"

text \<open>\<open>re.split(r"\bHORA\b", valor, flags=re.IGNORECASE)[0]\<close>\<close>

definition split_HORA_first :: "(int \<Rightarrow> bool) \<Rightarrow> ustring \<Rightarrow> ustring" where
  "split_HORA_first is_word valor =
     (case search_HORA is_word None valor of None \<Rightarrow> valor | Some i \<Rightarrow> take i valor)"

text \<open>
  The search of \<open>_buscar_campo_telef\<close> for
  \<open>{campo_base}\s*:?\s*([+0-9][0-9\s().,\-]{6,})\<close>: the text of group 1 of the leftmost
  match. The group ends the pattern, so the match is the first way to match what precedes
  the group after which the group matches. The class \<open>[0-9]\<close> is the ten ASCII digits.
\<close>

definition is_ascii_digit :: "int \<Rightarrow> bool" where
  "is_ascii_digit c = (0x30 \<le> c \<and> c \<le> 0x39)"

definition is_field_char :: "int \<Rightarrow> bool" where
  "is_field_char c = (is_ascii_digit c \<or> is_space c \<or> c \<in> set (ustr ''().,-''))"

definition campo_prefix :: "ustring \<Rightarrow> item list" where
  "campo_prefix campo_base =
     lit_ci campo_base @ [Many 0 is_space, Maybe [ustr '':''], Many 0 is_space]"

definition campo_group :: "item list" where
  "campo_group = [One (\<lambda>c. c = ord CHR ''+'' \<or> is_ascii_digit c), Many 6 is_field_char]"

definition group_here :: "item list \<Rightarrow> item list \<Rightarrow> ustring \<Rightarrow> ustring option" where
  "group_here pre grp s =
     (case concat (map (\<lambda>r. map (\<lambda>e. take (length r - length e) r) (rex_ends grp r))
                       (rex_ends pre s)) of
        [] \<Rightarrow> None
      | g # _ \<Rightarrow> Some g)"

fun search_group :: "item list \<Rightarrow> item list \<Rightarrow> ustring \<Rightarrow> ustring option" where
  "search_group pre grp [] = group_here pre grp []"
| "search_group pre grp (c # cs) =
     (case group_here pre grp (c # cs) of
        Some g \<Rightarrow> Some g
      | None \<Rightarrow> search_group pre grp cs)"

definition buscar_campo_telef ::
  "(int \<Rightarrow> bool) \<Rightarrow> 'n phonenumbers_module option \<Rightarrow> ustring \<Rightarrow> ustring \<Rightarrow> ustring option"
  where
  "buscar_campo_telef is_word phonenumbers texto campo =
     (let campo_base = strip (filter (\<lambda>c. c \<noteq> ord CHR '':'') campo)
      in case search_group (campo_prefix campo_base) campo_group texto of
           None \<Rightarrow> None
         | Some valor0 \<Rightarrow>
             (let valor = strip (split_HORA_first is_word valor0)
              in catch_all (extraer_numero_telefono phonenumbers valor)))"

text \<open>Python's truth value of a \<open>str | None\<close>.\<close>

definition truthy :: "ustring option \<Rightarrow> bool" where
  "truthy r = (case r of None \<Rightarrow> False | Some t \<Rightarrow> t \<noteq> [])"

text \<open>
  \<open>extraer_telefono\<close> as a function of the text that \<open>_obtener_texto_ficha\<close> returned.
\<close>

definition extraer_telefono ::
  "(int \<Rightarrow> bool) \<Rightarrow> 'n phonenumbers_module option \<Rightarrow> ustring \<Rightarrow> ustring option" where
  "extraer_telefono is_word phonenumbers texto_completo =
     (if texto_completo = [] then None
      else
        (let telefono =
               buscar_en_seccion phonenumbers texto_completo (ustr ''OBSERVACIONES MANUALES:'')
         in if truthy telefono then telefono
         else
          (let telefono = buscar_en_seccion phonenumbers texto_completo (ustr ''DESCRIPCION:'')
           in if truthy telefono then telefono
           else
            (let telefono =
                   buscar_campo_telef is_word phonenumbers texto_completo (ustr ''TELEF-1:'')
             in if truthy telefono then telefono
             else
              (let telefono =
                     buscar_campo_telef is_word phonenumbers texto_completo (ustr ''TELEF-2:'')
               in if truthy telefono then telefono
               else None)))))"


section \<open>Loading the module\<close>

text \<open>
  Lines 8 to 10: \<open>import phonenumbers\<close> at the top of the module, outside any
  \<open>try\<close>. \<open>installed\<close> is what the interpreter finds under that name. When the import
  succeeds the global name \<open>phonenumbers\<close> is bound to the library.
\<close>

definition import_phonenumbers ::
  "'n phonenumbers_module option \<Rightarrow> py_exception + 'n phonenumbers_module" where
  "import_phonenumbers installed =
     (case installed of None \<Rightarrow> Inl ModuleNotFoundError | Some m \<Rightarrow> Inr m)"

definition load_ficha_module ::
  "'n phonenumbers_module option \<Rightarrow> py_exception + 'n phonenumbers_module option" where
  "load_ficha_module installed =
     (case import_phonenumbers installed of Inl e \<Rightarrow> Inl e | Inr m \<Rightarrow> Inr (Some m))"

text \<open>Loading the module and then calling \<open>extraer_telefono\<close> on a text.\<close>

definition run_extraer_telefono ::
  "(int \<Rightarrow> bool) \<Rightarrow> 'n phonenumbers_module option \<Rightarrow> ustring
     \<Rightarrow> py_exception + ustring option" where
  "run_extraer_telefono is_word installed texto =
     (case load_ficha_module installed of
        Inl e \<Rightarrow> Inl e
      | Inr phonenumbers \<Rightarrow> Inr (extraer_telefono is_word phonenumbers texto))"


section \<open>Notions used in the statements\<close>

text \<open>The first value present in a list of optional values.\<close>

fun first_some :: "'a option list \<Rightarrow> 'a option" where
  "first_some [] = None"
| "first_some (None # r) = first_some r"
| "first_some (Some x # r) = Some x"

text \<open>
  The two shapes of a normalised number. A digit is a character that \<open>\d\<close> matches: any
  Unicode decimal digit, not only \<open>0\<close> to \<open>9\<close>.
\<close>

definition nine_digits :: "ustring \<Rightarrow> bool" where
  "nine_digits t = (length t = 9 \<and> list_all is_digit t)"

definition plus_digits :: "ustring \<Rightarrow> bool" where
  "plus_digits t =
     (startswith t (ustr ''+'') \<and> list_all is_digit (drop 1 t)
      \<and> 8 \<le> length t - 1 \<and> length t - 1 \<le> 15)"

text \<open>
  A small stand-in for the library, for running examples: it parses \<open>+\<close> followed by
  digits, takes 11 digits or more as valid, and classifies \<open>+336...\<close> and \<open>+337...\<close> as
  mobile.
\<close>

definition toy_phonenumbers :: "ustring phonenumbers_module" where
  "toy_phonenumbers =
     \<lparr> parse = (\<lambda>s. if startswith s (ustr ''+'') \<and> list_all is_digit (drop 1 s)
                     then Inr (drop 1 s) else Inl NumberParseException),
       is_valid_number = (\<lambda>n. 11 \<le> length n),
       number_type = (\<lambda>n. if startswith n (ustr ''336'') \<or> startswith n (ustr ''337'')
                           then MOBILE else FIXED_LINE) \<rparr>"

text \<open>
  The ASCII part of \<open>\w\<close>, for running examples: the letters, the digits and the
  underscore. No result of the extraction depends on the table of \<open>\w\<close>.
\<close>

definition ascii_word :: "int \<Rightarrow> bool" where
  "ascii_word c =
     ((0x30 \<le> c \<and> c \<le> 0x39) \<or> (0x41 \<le> c \<and> c \<le> 0x5A) \<or> c = 0x5F
      \<or> (0x61 \<le> c \<and> c \<le> 0x7A))"


section \<open>Facts about the character classes and string helpers\<close>

lemma startswith_prefix: "startswith s p \<longleftrightarrow> prefix p s"
  by (auto simp: startswith_def prefix_def) (metis append_take_drop_id)

lemma startswith_Cons:
  "startswith (c # cs) (p # ps) \<longleftrightarrow> c = p \<and> startswith cs ps"
  by (simp add: startswith_def)

lemma startswith_Nil [simp]: "startswith s []"
  by (simp add: startswith_def)

lemma startswith_Nil_left [simp]: "startswith [] p \<longleftrightarrow> p = []"
  by (auto simp: startswith_def)

lemma ustr_Nil [simp]: "ustr [] = []"
  by (simp add: ustr_def)

lemma ustr_Cons [simp]: "ustr (c # cs) = ord c # ustr cs"
  by (simp add: ustr_def)

lemma ustr_not_Nil: "ustr (c # cs) \<noteq> []"
  by (simp add: ustr_Cons)

lemma space_not_digit: "is_space c \<Longrightarrow> \<not> is_digit c"
  unfolding is_space_def list.set insert_iff empty_iff
  by (elim disjE FalseE; simp add: is_digit_def wide_zeros_def)

lemma digit_not_space: "is_digit c \<Longrightarrow> \<not> is_space c"
  using space_not_digit by blast

lemma nbsp_is_space: "is_space nbsp"
  by (simp add: is_space_def nbsp_def)

lemma digit_not_nbsp: "is_digit c \<Longrightarrow> c \<noteq> nbsp"
  using space_not_digit nbsp_is_space by blast

lemma digit_not_plus: "is_digit c \<Longrightarrow> c \<noteq> ord CHR ''+''"
  by (auto simp: is_digit_def ord_def)

lemma plus_not_space: "\<not> is_space (ord CHR ''+'')"
  by (simp add: is_space_def ord_def)

lemma strip_id:
  assumes "s \<noteq> []" "\<not> is_space (hd s)" "\<not> is_space (last s)"
  shows "strip s = s"
proof -
  from assms have a: "dropWhile is_space s = s"
    by (cases s) auto
  from assms have "dropWhile is_space (rev s) = rev s"
    by (cases "rev s") (auto simp: last_rev[symmetric] simp del: last_rev)
  with a show ?thesis by (simp add: strip_def)
qed

lemma set_strip: "set (strip s) \<subseteq> set s"
proof -
  have "set (dropWhile is_space (rev (dropWhile is_space s))) \<subseteq> set (rev (dropWhile is_space s))"
    by (auto dest: set_dropWhileD)
  also have "\<dots> \<subseteq> set s"
    by (auto dest: set_dropWhileD)
  finally show ?thesis
    by (simp add: strip_def)
qed

lemma filter_digits_id: "list_all is_digit d \<Longrightarrow> filter is_digit d = d"
  by (induction d) auto

lemma list_all_filter_digit: "list_all is_digit (filter is_digit s)"
  by (induction s) auto

lemma filter_digit_chars:
  "set u \<subseteq> set s \<Longrightarrow> set (filter is_digit u) \<subseteq> {c \<in> set s. is_digit c}"
  by auto

lemma list_all_drop: "list_all P xs \<Longrightarrow> list_all P (drop n xs)"
  by (auto simp: list_all_iff dest: in_set_dropD)

lemma no_nbsp_map_id:
  "list_all (\<lambda>c. c \<noteq> nbsp) y \<Longrightarrow> map (\<lambda>c. if c = nbsp then ord CHR '' '' else c) y = y"
  by (induction y) simp_all

lemma clean_char: "is_digit c \<or> c = ord CHR ''+'' \<Longrightarrow> \<not> is_space c \<and> c \<noteq> nbsp"
  using digit_not_space digit_not_nbsp plus_not_space by (auto simp: nbsp_def ord_def)

lemma clean_id:
  assumes "y \<noteq> []" "list_all (\<lambda>c. is_digit c \<or> c = ord CHR ''+'') y"
  shows "strip (map (\<lambda>c. if c = nbsp then ord CHR '' '' else c) (strip y)) = y"
proof -
  have cl: "\<not> is_space c \<and> c \<noteq> nbsp" if "c \<in> set y" for c
  proof -
    from that assms(2) have "is_digit c \<or> c = ord CHR ''+''"
      unfolding list_all_iff by blast
    then show ?thesis by (rule clean_char)
  qed
  have h: "hd y \<in> set y" and l: "last y \<in> set y"
    using assms(1) by simp_all
  have st: "strip y = y"
    using assms(1) cl[OF h] cl[OF l] by (intro strip_id) simp_all
  have "list_all (\<lambda>c. c \<noteq> nbsp) y"
    unfolding list_all_iff using cl by blast
  then have "map (\<lambda>c. if c = nbsp then ord CHR '' '' else c) y = y"
    by (rule no_nbsp_map_id)
  with st show ?thesis by simp
qed

section \<open>The normaliser\<close>

lemma plus_digitsI:
  "list_all is_digit d \<Longrightarrow> 8 \<le> length d \<Longrightarrow> length d \<le> 15 \<Longrightarrow> plus_digits (ord CHR ''+'' # d)"
  by (simp add: plus_digits_def startswith_def ord_def)

lemma normalizar_resto_shape:
  assumes "normalizar_resto s = Some y"
  shows "nine_digits y \<or> plus_digits y"
proof (cases "startswith s (ustr ''+'')")
  case True
  with assms show ?thesis
    by (auto simp: normalizar_resto_def Let_def list_all_filter_digit
             intro!: plus_digitsI split: if_splits)
next
  case False
  define d0 where "d0 = filter is_digit s"
  define d where "d = (if startswith d0 (ustr ''0'') \<and> length d0 = 10 \<and> d0 ! 1 \<in> set (ustr ''6789'')
                        then drop 1 d0 else d0)"
  have d0: "list_all is_digit d0"
    by (simp add: d0_def list_all_filter_digit)
  then have d: "list_all is_digit d"
    by (simp add: d_def list_all_drop)
  have "normalizar_resto s =
     (if d0 = [] then None
      else if startswith d (ustr ''34'') \<and> length d = 11 \<and> d ! 2 \<in> set (ustr ''6789'')
      then Some (drop (length d - 9) d)
      else if length d = 9 then Some d
      else if 8 \<le> length d \<and> length d \<le> 15 then Some (ustr ''+'' @ d)
      else None)"
    unfolding normalizar_resto_def Let_def d_def d0_def using False
    by (simp only: if_False)
  with assms have y:
    "(if startswith d (ustr ''34'') \<and> length d = 11 \<and> d ! 2 \<in> set (ustr ''6789'')
      then Some (drop (length d - 9) d)
      else if length d = 9 then Some d
      else if 8 \<le> length d \<and> length d \<le> 15 then Some (ustr ''+'' @ d)
      else None) = Some y"
    by (cases "d0 = []") simp_all
  show ?thesis
  proof (cases "startswith d (ustr ''34'') \<and> length d = 11 \<and> d ! 2 \<in> set (ustr ''6789'')")
    case True
    with y have "y = drop (length d - 9) d" by simp
    with True d show ?thesis
      by (simp add: nine_digits_def list_all_drop)
  next
    case F: False
    show ?thesis
    proof (cases "length d = 9")
      case True
      with y F have "y = d" by simp
      with True d show ?thesis by (simp add: nine_digits_def)
    next
      case False
      with y F have "y = ord CHR ''+'' # d \<and> 8 \<le> length d \<and> length d \<le> 15"
        by (simp split: if_splits)
      with d show ?thesis by (simp add: plus_digitsI)
    qed
  qed
qed

lemma normalizar_telefono_shape:
  assumes "normalizar_telefono raw = Some y"
  shows "nine_digits y \<or> plus_digits y"
proof -
  define s where "s = strip (map (\<lambda>c. if c = nbsp then ord CHR '' '' else c) (strip raw))"
  define r where "r = filter is_digit (drop 2 s)"
  from assms have raw: "raw \<noteq> []"
    by (auto simp: normalizar_telefono_def)
  have "normalizar_telefono raw =
     (if startswith s (ustr ''00'') then
        (if length r = 9 \<and> r ! 0 \<in> set (ustr ''67'') then Some r
         else if length r = 9 \<and> r ! 0 \<in> set (ustr ''89'') then Some r
         else normalizar_resto (ustr ''+'' @ r))
      else normalizar_resto s)"
    unfolding normalizar_telefono_def Let_def s_def r_def using raw
    by (simp only: if_False)
  with assms have y:
    "(if startswith s (ustr ''00'') then
        (if length r = 9 \<and> r ! 0 \<in> set (ustr ''67'') then Some r
         else if length r = 9 \<and> r ! 0 \<in> set (ustr ''89'') then Some r
         else normalizar_resto (ustr ''+'' @ r))
      else normalizar_resto s) = Some y"
    by simp
  have r: "list_all is_digit r"
    by (simp add: r_def list_all_filter_digit)
  show ?thesis
  proof (cases "startswith s (ustr ''00'') \<and> length r = 9 \<and> (r ! 0 \<in> set (ustr ''67'') \<or> r ! 0 \<in> set (ustr ''89''))")
    case True
    with y have "y = r" by (auto split: if_splits)
    with True r show ?thesis by (simp add: nine_digits_def)
  next
    case False
    with y have "normalizar_resto (ustr ''+'' @ r) = Some y \<or> normalizar_resto s = Some y"
      by (auto split: if_splits)
    then show ?thesis by (auto dest: normalizar_resto_shape)
  qed
qed

text \<open>
  Every character of a result is \<open>+\<close> or a digit of the input.
\<close>

lemma normalizar_resto_chars:
  assumes "normalizar_resto s = Some y"
  shows "set y \<subseteq> insert (ord CHR ''+'') {c \<in> set s. is_digit c}"
proof (cases "startswith s (ustr ''+'')")
  case True
  with assms have "y = ord CHR ''+'' # filter is_digit (drop 1 s)"
    by (auto simp: normalizar_resto_def Let_def split: if_splits)
  moreover have "set (filter is_digit (drop 1 s)) \<subseteq> {c \<in> set s. is_digit c}"
    by (rule filter_digit_chars) (rule set_drop_subset)
  ultimately show ?thesis by auto
next
  case False
  define d0 where "d0 = filter is_digit s"
  define d where "d = (if startswith d0 (ustr ''0'') \<and> length d0 = 10
                          \<and> d0 ! 1 \<in> set (ustr ''6789'')
                        then drop 1 d0 else d0)"
  have "set d \<subseteq> set d0"
    unfolding d_def using set_drop_subset[of 1 d0] by (simp del: ustr_Cons)
  then have d: "set d \<subseteq> {c \<in> set s. is_digit c}"
    unfolding d0_def by auto
  have "normalizar_resto s =
     (if d0 = [] then None
      else if startswith d (ustr ''34'') \<and> length d = 11 \<and> d ! 2 \<in> set (ustr ''6789'')
      then Some (drop (length d - 9) d)
      else if length d = 9 then Some d
      else if 8 \<le> length d \<and> length d \<le> 15 then Some (ustr ''+'' @ d)
      else None)"
    unfolding normalizar_resto_def Let_def d_def d0_def using False
    by (simp only: if_False)
  with assms have "y = drop (length d - 9) d \<or> y = d \<or> y = ord CHR ''+'' # d"
    by (auto split: if_splits)
  moreover have "set (drop (length d - 9) d) \<subseteq> set d"
    by (rule set_drop_subset)
  ultimately show ?thesis
    using d by auto
qed

lemma normalizar_telefono_chars:
  assumes "normalizar_telefono raw = Some y"
  shows "set y \<subseteq> insert (ord CHR ''+'') {c \<in> set raw. is_digit c}"
proof -
  define s where "s = strip (map (\<lambda>c. if c = nbsp then ord CHR '' '' else c) (strip raw))"
  define r where "r = filter is_digit (drop 2 s)"
  have sp: "\<not> is_digit (ord CHR '' '')"
    by (simp add: is_digit_def ord_def)
  have s: "{c \<in> set s. is_digit c} \<subseteq> {c \<in> set raw. is_digit c}"
  proof
    fix c
    assume "c \<in> {c \<in> set s. is_digit c}"
    then have c: "c \<in> set s" and dg: "is_digit c"
      by simp_all
    from c set_strip have "c \<in> set (map (\<lambda>c. if c = nbsp then ord CHR '' '' else c) (strip raw))"
      unfolding s_def by blast
    then obtain c' where c': "c' \<in> set (strip raw)"
      and cc: "c = (if c' = nbsp then ord CHR '' '' else c')"
      by auto
    from cc dg sp have "c = c'"
      by (auto split: if_splits)
    with c' set_strip dg show "c \<in> {c \<in> set raw. is_digit c}"
      by blast
  qed
  have r: "set r \<subseteq> {c \<in> set s. is_digit c}"
    unfolding r_def by (rule filter_digit_chars) (rule set_drop_subset)
  from assms have raw: "raw \<noteq> []"
    by (auto simp: normalizar_telefono_def)
  have "normalizar_telefono raw =
     (if startswith s (ustr ''00'') then
        (if length r = 9 \<and> r ! 0 \<in> set (ustr ''67'') then Some r
         else if length r = 9 \<and> r ! 0 \<in> set (ustr ''89'') then Some r
         else normalizar_resto (ustr ''+'' @ r))
      else normalizar_resto s)"
    unfolding normalizar_telefono_def Let_def s_def r_def using raw
    by (simp only: if_False)
  with assms have y:
    "(if startswith s (ustr ''00'') then
        (if length r = 9 \<and> r ! 0 \<in> set (ustr ''67'') then Some r
         else if length r = 9 \<and> r ! 0 \<in> set (ustr ''89'') then Some r
         else normalizar_resto (ustr ''+'' @ r))
      else normalizar_resto s) = Some y"
    by (simp only:)
  have "y = r \<or> normalizar_resto (ustr ''+'' @ r) = Some y \<or> normalizar_resto s = Some y"
  proof (cases "startswith s (ustr ''00'')")
    case False
    with y show ?thesis by (simp del: ustr_Cons)
  next
    case True
    note t = this
    show ?thesis
    proof (cases "length r = 9 \<and> r ! 0 \<in> set (ustr ''67'')")
      case True
      with y t have "Some r = Some y" by (simp del: ustr_Cons)
      then show ?thesis by simp
    next
      case False
      note f = this
      show ?thesis
      proof (cases "length r = 9 \<and> r ! 0 \<in> set (ustr ''89'')")
        case True
        with y t f have "Some r = Some y" by (simp del: ustr_Cons)
        then show ?thesis by simp
      next
        case False
        with y t f have "normalizar_resto (ustr ''+'' @ r) = Some y"
          by (simp del: ustr_Cons)
        then show ?thesis by (simp only: simp_thms)
      qed
    qed
  qed
  then consider "y = r" | "normalizar_resto (ustr ''+'' @ r) = Some y"
    | "normalizar_resto s = Some y"
    by blast
  then have "set y \<subseteq> insert (ord CHR ''+'') {c \<in> set s. is_digit c}"
  proof cases
    case 1
    with r show ?thesis by auto
  next
    case 2
    from normalizar_resto_chars[OF this] r show ?thesis by auto
  next
    case 3
    then show ?thesis by (rule normalizar_resto_chars)
  qed
  with s show ?thesis by blast
qed

lemma normalizar_telefono_unfold:
  assumes "y \<noteq> []" "list_all (\<lambda>c. is_digit c \<or> c = ord CHR ''+'') y"
  shows "normalizar_telefono y =
     (if startswith y (ustr ''00'') then
        (let rest_digits = filter is_digit (drop 2 y) in
         if length rest_digits = 9 \<and> rest_digits ! 0 \<in> set (ustr ''67'') then Some rest_digits
         else if length rest_digits = 9 \<and> rest_digits ! 0 \<in> set (ustr ''89'') then Some rest_digits
         else normalizar_resto (ustr ''+'' @ rest_digits))
      else normalizar_resto y)"
  unfolding normalizar_telefono_def Let_def clean_id[OF assms] using assms(1)
  by (simp only: if_False)

lemma normalizar_plus:
  assumes "plus_digits y"
  shows "normalizar_telefono y = Some y"
proof -
  from assms obtain d where y: "y = ord CHR ''+'' # d" and d: "list_all is_digit d"
    and len: "8 \<le> length d" "length d \<le> 15"
    by (cases y) (auto simp: plus_digits_def startswith_def ord_def)
  have all: "list_all (\<lambda>c. is_digit c \<or> c = ord CHR ''+'') y"
    using d by (auto simp: y list_all_iff)
  have "normalizar_telefono y = normalizar_resto y"
    using normalizar_telefono_unfold[OF _ all] by (simp add: y startswith_def ord_def)
  also have "\<dots> = Some y"
    using d len by (simp add: normalizar_resto_def y startswith_def ord_def filter_digits_id)
  finally show ?thesis .
qed

lemma normalizar_nine:
  assumes "nine_digits y"
  shows "normalizar_telefono y = (if startswith y (ustr ''00'') then None else Some y)"
proof -
  from assms have len: "length y = 9" and d: "list_all is_digit y"
    by (simp_all add: nine_digits_def)
  then have ne: "y \<noteq> []" by auto
  have all: "list_all (\<lambda>c. is_digit c \<or> c = ord CHR ''+'') y"
    using d by (auto simp: list_all_iff)
  have np: "\<not> startswith y (ustr ''+'')"
    using d ne digit_not_plus by (cases y) (auto simp: startswith_def)
  show ?thesis
  proof (cases "startswith y (ustr ''00'')")
    case True
    have r: "filter is_digit (drop 2 y) = drop 2 y"
      using d by (simp add: filter_digits_id list_all_drop)
    have "normalizar_telefono y = normalizar_resto (ustr ''+'' @ drop 2 y)"
      using normalizar_telefono_unfold[OF ne all] True len by (simp add: r Let_def)
    also have "\<dots> = None"
      using len d by (simp add: normalizar_resto_def startswith_def ord_def filter_digits_id list_all_drop)
    finally show ?thesis using True by simp
  next
    case False
    have "normalizar_telefono y = normalizar_resto y"
      using normalizar_telefono_unfold[OF ne all] False by simp
    also have "\<dots> = Some y"
      using len d np ne by (simp add: normalizar_resto_def filter_digits_id)
    finally show ?thesis using False by simp
  qed
qed

text \<open>
  C6, as stated, fails: a result without \<open>+\<close> may begin with a zero, and its digits
  need not be among \<open>0\<close> to \<open>9\<close>. The input \<open>012345678\<close> has nine digits and no
  leading \<open>00\<close>, so the branch for nine digits returns it unchanged; so it does the
  nine fullwidth digits U+FF11 to U+FF19, which \<open>\D\<close> does not remove.
\<close>

theorem normalizar_nine_leading_zero:
  "normalizar_telefono (ustr ''012345678'') = Some (ustr ''012345678'')
   \<and> normalizar_telefono [0xFF11, 0xFF12, 0xFF13, 0xFF14, 0xFF15, 0xFF16, 0xFF17, 0xFF18, 0xFF19]
       = Some [0xFF11, 0xFF12, 0xFF13, 0xFF14, 0xFF15, 0xFF16, 0xFF17, 0xFF18, 0xFF19]"
  by code_simp

text \<open>
  C6, amended. A result of the normaliser is either a string of exactly nine digits
  (whatever its first digit) or a \<open>+\<close> followed by 8 to 15 digits, a digit being any
  character that \<open>\d\<close> matches (a Unicode decimal digit); and each digit of the result
  is a digit of the input, so an input whose digits are among \<open>0\<close> to \<open>9\<close> gives a
  result written with \<open>0\<close> to \<open>9\<close>.
\<close>

theorem normalizar_telefono_two_shapes:
  "normalizar_telefono raw = Some y \<Longrightarrow>
     (nine_digits y \<or> plus_digits y)
     \<and> set y \<subseteq> insert (ord CHR ''+'') {c \<in> set raw. is_digit c}"
  using normalizar_telefono_shape normalizar_telefono_chars by blast

theorem normalizar_telefono_two_shapes_witness:
  "normalizar_telefono (ustr ''0034 612 345 678'') = Some (ustr ''+34612345678'')
   \<and> plus_digits (ustr ''+34612345678'')
   \<and> normalizar_telefono (ustr ''(0) 612-345-678'') = Some (ustr ''612345678'')
   \<and> nine_digits (ustr ''612345678'')
   \<and> normalizar_telefono [0xFF11, 0xFF12, 0xFF13, 0xFF14, 0xFF15, 0xFF16, 0xFF17, 0xFF18, 0xFF19]
       = Some [0xFF11, 0xFF12, 0xFF13, 0xFF14, 0xFF15, 0xFF16, 0xFF17, 0xFF18, 0xFF19]
   \<and> nine_digits [0xFF11, 0xFF12, 0xFF13, 0xFF14, 0xFF15, 0xFF16, 0xFF17, 0xFF18, 0xFF19]"
proof -
  have a: "normalizar_telefono (ustr ''0034 612 345 678'') = Some (ustr ''+34612345678'')"
    by code_simp
  have b: "normalizar_telefono (ustr ''(0) 612-345-678'') = Some (ustr ''612345678'')"
    by code_simp
  have c: "normalizar_telefono [0xFF11, 0xFF12, 0xFF13, 0xFF14, 0xFF15, 0xFF16, 0xFF17, 0xFF18, 0xFF19]
       = Some [0xFF11, 0xFF12, 0xFF13, 0xFF14, 0xFF15, 0xFF16, 0xFF17, 0xFF18, 0xFF19]"
    by code_simp
  have na: "\<not> nine_digits (ustr ''+34612345678'')"
    by code_simp
  have nb: "\<not> plus_digits (ustr ''612345678'')"
    by code_simp
  have nc: "\<not> plus_digits [0xFF11, 0xFF12, 0xFF13, 0xFF14, 0xFF15, 0xFF16, 0xFF17, 0xFF18, 0xFF19]"
    by code_simp
  from normalizar_telefono_two_shapes[OF a] na have pa: "plus_digits (ustr ''+34612345678'')"
    by blast
  from normalizar_telefono_two_shapes[OF b] nb have pb: "nine_digits (ustr ''612345678'')"
    by blast
  from normalizar_telefono_two_shapes[OF c] nc
  have pc: "nine_digits [0xFF11, 0xFF12, 0xFF13, 0xFF14, 0xFF15, 0xFF16, 0xFF17, 0xFF18, 0xFF19]"
    by blast
  show ?thesis
    by (intro conjI a pa b pb c pc)
qed

text \<open>
  C5, as stated, fails: \<open>0 01234567\<close> does not begin with \<open>00\<close>, its nine digits
  \<open>001234567\<close> are returned as a national number, and that result, which does begin
  with \<open>00\<close>, is rejected when normalised again (seven digits remain after the prefix).
\<close>

theorem normalizar_not_idempotent:
  "normalizar_telefono (ustr ''0 01234567'') = Some (ustr ''001234567'')
   \<and> normalizar_telefono (ustr ''001234567'') = None"
  by code_simp

text \<open>
  C5, amended. Normalising a result of the normaliser gives that result again, except
  for a result that begins with \<open>00\<close>, which is rejected.
\<close>

theorem normalizar_idempotent_except_00:
  "normalizar_telefono x = Some y \<Longrightarrow>
     normalizar_telefono y = (if startswith y (ustr ''00'') then None else Some y)"
proof -
  assume "normalizar_telefono x = Some y"
  then have "nine_digits y \<or> plus_digits y"
    by (rule normalizar_telefono_shape)
  then show ?thesis
  proof
    assume "nine_digits y"
    then show ?thesis by (rule normalizar_nine)
  next
    assume p: "plus_digits y"
    then have "\<not> startswith y (ustr ''00'')"
      by (cases y) (auto simp: plus_digits_def startswith_def ord_def)
    with p show ?thesis by (simp add: normalizar_plus)
  qed
qed

theorem normalizar_idempotent_except_00_witness:
  "normalizar_telefono (ustr ''+34 612-345-678 '') = Some (ustr ''+34612345678'')
   \<and> normalizar_telefono (ustr ''+34612345678'') = Some (ustr ''+34612345678'')
   \<and> normalizar_telefono (ustr ''0 01234567'') = Some (ustr ''001234567'')
   \<and> normalizar_telefono (ustr ''001234567'') = None"
proof -
  have a: "normalizar_telefono (ustr ''+34 612-345-678 '') = Some (ustr ''+34612345678'')"
    by code_simp
  have b: "normalizar_telefono (ustr ''0 01234567'') = Some (ustr ''001234567'')"
    by code_simp
  from normalizar_idempotent_except_00[OF a]
  have a': "normalizar_telefono (ustr ''+34612345678'') = Some (ustr ''+34612345678'')"
    by (simp add: startswith_def ord_def)
  from normalizar_idempotent_except_00[OF b]
  have b': "normalizar_telefono (ustr ''001234567'') = None"
    by (simp add: startswith_def ord_def)
  show ?thesis by (intro conjI a a' b b')
qed

section \<open>The matcher\<close>

text \<open>
  The greedy repetition offers the remainders after the whole run, then after one
  character less, down to the text itself; what it consumed is in the class.
\<close>

lemma many_ends_runs:
  "many_ends p s = map (\<lambda>j. drop j s) (rev [0..<Suc (length (takeWhile p s))])"
proof (induction s)
  case Nil
  then show ?case by simp
next
  case (Cons c cs)
  show ?case
  proof (cases "p c")
    case False
    then show ?thesis by simp
  next
    case True
    define n where "n = length (takeWhile p cs)"
    have "[0..<Suc (Suc n)] = 0 # [Suc 0..<Suc (Suc n)]"
      by (rule upt_conv_Cons) simp
    also have "[Suc 0..<Suc (Suc n)] = map Suc [0..<Suc n]"
      by (simp only: map_Suc_upt)
    finally have u: "[0..<Suc (Suc n)] = 0 # map Suc [0..<Suc n]" .
    have "many_ends p (c # cs) = many_ends p cs @ [c # cs]"
      using True by simp
    also have "\<dots> = map (\<lambda>j. drop j cs) (rev [0..<Suc n]) @ [c # cs]"
      unfolding n_def by (simp only: Cons.IH)
    also have "\<dots> = map (\<lambda>j. drop j (c # cs)) (rev [0..<Suc (Suc n)])"
      unfolding u by (simp add: rev_map comp_def del: upt_Suc)
    finally show ?thesis
      using True by (simp add: n_def del: upt_Suc many_ends.simps)
  qed
qed

lemma many_ends_self: "s \<in> set (many_ends p s)"
  by (cases s) simp_all

lemma many_ends_mem: "list_all p u \<Longrightarrow> v \<in> set (many_ends p (u @ v))"
  by (induction u) (simp_all add: many_ends_self)

lemma many_ends_prefix:
  "e \<in> set (many_ends q s) \<Longrightarrow> \<exists>m. s = m @ e \<and> list_all q m"
proof (induction s)
  case Nil
  then show ?case by simp
next
  case (Cons c cs)
  show ?case
  proof (cases "e = c # cs")
    case True
    then show ?thesis by simp
  next
    case False
    with Cons.prems have q: "q c" and "e \<in> set (many_ends q cs)"
      by (auto split: if_splits)
    from Cons.IH[OF this(2)] obtain m where "cs = m @ e" "list_all q m"
      by blast
    with q have "c # cs = (c # m) @ e \<and> list_all q (c # m)"
      by simp
    then show ?thesis by blast
  qed
qed

lemma rex_ends_suffix: "e \<in> set (rex_ends pat s) \<Longrightarrow> suffix e s"
proof (induction pat s arbitrary: e rule: rex_ends.induct)
  case (1 s)
  then show ?case by simp
next
  case (2 p r s)
  show ?case
  proof (cases s)
    case Nil
    with 2 show ?thesis by simp
  next
    case (Cons c cs)
    with "2.prems" have "p c" and "e \<in> set (rex_ends r cs)"
      by (auto split: if_splits)
    from "2.IH"[OF Cons this] Cons show ?thesis
      by (simp add: suffix_Cons)
  qed
next
  case (3 n p r s)
  from "3.prems" obtain x where x: "x \<in> set (take (length (many_ends p s) - n) (many_ends p s))"
    and e: "e \<in> set (rex_ends r x)"
    by (auto simp: Let_def)
  from x have xm: "x \<in> set (many_ends p s)"
    by (meson in_set_takeD)
  from "3.IH"[OF refl x e] have "suffix e x" .
  moreover from many_ends_prefix[OF xm] have "suffix x s"
    by (auto simp: suffix_def)
  ultimately show ?case
    by (rule suffix_order.trans)
next
  case (4 alts r s)
  from "4.prems" consider a where "a \<in> set (filter (startswith s) alts)"
      "e \<in> set (rex_ends r (drop (length a) s))"
    | "e \<in> set (rex_ends r s)"
    by auto
  then show ?case
  proof cases
    case 1
    from "4.IH"(1)[OF this] have "suffix e (drop (length a) s)" .
    then show ?thesis
      using suffix_drop suffix_order.trans by blast
  next
    case 2
    then show ?thesis by (rule "4.IH"(2))
  qed
qed

lemma rex_ends_Many0_nonempty:
  assumes "list_all p u" "rex_ends r v \<noteq> []"
  shows "rex_ends (Many 0 p # r) (u @ v) \<noteq> []"
proof -
  have "v \<in> set (many_ends p (u @ v))"
    using assms(1) by (rule many_ends_mem)
  with assms(2) show ?thesis
    by (auto simp: Let_def)
qed

lemma rex_ends_lit_ci:
  "list_all2 eq_ci W w \<Longrightarrow> rex_ends (lit_ci W @ r) (w @ t) = rex_ends r t"
  by (induction W w rule: list_all2_induct) (simp_all add: lit_ci_def)

text \<open>
  \<open>rex_search\<close> returns the leftmost position at which the pattern matches, and
  \<open>finditer\<close> returns pieces of the text.
\<close>

lemma rex_search_leftmost_le:
  "rex_match pat (drop k s) \<noteq> None \<Longrightarrow> k \<le> length s \<Longrightarrow>
     \<exists>i n. rex_search pat s = Some (i, n) \<and> i \<le> k"
proof (induction s arbitrary: k)
  case Nil
  then show ?case by auto
next
  case (Cons c cs)
  show ?case
  proof (cases "rex_match pat (c # cs)")
    case (Some n)
    then show ?thesis by simp
  next
    case None
    with Cons.prems obtain k' where k: "k = Suc k'"
      by (cases k) auto
    with Cons.prems have "rex_match pat (drop k' cs) \<noteq> None" "k' \<le> length cs"
      by simp_all
    from Cons.IH[OF this] obtain i n where "rex_search pat cs = Some (i, n)" "i \<le> k'"
      by blast
    with None k show ?thesis by simp
  qed
qed

lemma rex_search_sound:
  "rex_search pat s = Some (i, n) \<Longrightarrow>
     i \<le> length s \<and> rex_match pat (drop i s) = Some n \<and> (\<forall>j<i. rex_match pat (drop j s) = None)"
proof (induction s arbitrary: i)
  case Nil
  then show ?case by (simp split: option.splits)
next
  case (Cons c cs)
  show ?case
  proof (cases "rex_match pat (c # cs)")
    case (Some m)
    with Cons.prems show ?thesis by simp
  next
    case None
    with Cons.prems obtain i' where s: "rex_search pat cs = Some (i', n)" and i: "i = Suc i'"
      by (auto split: option.splits)
    from Cons.IH[OF s] have ih: "i' \<le> length cs" "rex_match pat (drop i' cs) = Some n"
      "\<forall>j<i'. rex_match pat (drop j cs) = None"
      by simp_all
    have "rex_match pat (drop j (c # cs)) = None" if "j < i" for j
    proof (cases j)
      case 0
      with None show ?thesis by simp
    next
      case (Suc j')
      with that i ih(3) show ?thesis by simp
    qed
    with ih i show ?thesis by simp
  qed
qed

lemma rex_search_None:
  "rex_search pat s = None \<Longrightarrow> j \<le> length s \<Longrightarrow> rex_match pat (drop j s) = None"
proof (induction s arbitrary: j)
  case Nil
  then show ?case by (simp split: option.splits)
next
  case (Cons c cs)
  from Cons.prems(1) have n: "rex_match pat (c # cs) = None" and s: "rex_search pat cs = None"
    by (auto split: option.splits)
  show ?case
  proof (cases j)
    case 0
    with n show ?thesis by simp
  next
    case (Suc j')
    with Cons.prems(2) Cons.IH[OF s, of j'] show ?thesis by simp
  qed
qed

lemma finditer_set: "c \<in> set (finditer pat s) \<Longrightarrow> set c \<subseteq> set s"
proof (induction pat s rule: finditer.induct)
  case (1 pat s)
  show ?case
  proof (cases "rex_match pat s")
    case None
    show ?thesis
    proof (cases "s = []")
      case True
      with None "1.prems" show ?thesis
        by (subst (asm) finditer.simps) simp
    next
      case False
      with None "1.prems" have "c \<in> set (finditer pat (tl s))"
        by (subst (asm) finditer.simps) simp
      from "1.IH"(1)[OF None False this] have "set c \<subseteq> set (tl s)" .
      with False show ?thesis
        by (cases s) auto
    qed
  next
    case (Some n)
    show ?thesis
    proof (cases "s = []")
      case True
      with Some "1.prems" show ?thesis
        by (subst (asm) finditer.simps) simp
    next
      case False
      with Some "1.prems" consider "c = take n s" | "c \<in> set (finditer pat (drop (max 1 n) s))"
        by (subst (asm) finditer.simps) auto
      then show ?thesis
      proof cases
        case 1
        then show ?thesis by (simp add: set_take_subset)
      next
        case 2
        from "1.IH"(2)[OF Some False this] have "set c \<subseteq> set (drop (max 1 n) s)" .
        then show ?thesis
          using set_drop_subset by fastforce
      qed
    qed
  qed
qed

section \<open>What the extraction returns\<close>

lemma primer_movil_Some:
  "primer_movil lib cs = Inr (Some t) \<Longrightarrow>
     t \<noteq> [] \<and> es_movil lib t = Inr True \<and> (\<exists>c. c \<in> set cs \<and> normalizar_telefono c = Some t)"
proof (induction cs)
  case Nil
  then show ?case by simp
next
  case (Cons c cs)
  show ?case
  proof (cases "normalizar_telefono c")
    case None
    with Cons show ?thesis by auto
  next
    case (Some tel)
    show ?thesis
    proof (cases "tel = []")
      case True
      with Some Cons show ?thesis by auto
    next
      case False
      show ?thesis
      proof (cases "es_movil lib tel")
        case (Inl e)
        with Some False Cons.prems show ?thesis by simp
      next
        case (Inr ok)
        show ?thesis
        proof (cases ok)
          case True
          with Some False Inr Cons.prems have "t = tel" by simp
          with Some False Inr True show ?thesis by auto
        next
          case F: False
          with Some False Inr Cons.prems have "primer_movil lib cs = Inr (Some t)" by simp
          from Cons.IH[OF this] show ?thesis by auto
        qed
      qed
    qed
  qed
qed

lemma extraer_numero_telefono_Some:
  "extraer_numero_telefono lib texto = Inr (Some t) \<Longrightarrow>
     t \<noteq> [] \<and> es_movil lib t = Inr True \<and> (\<exists>c. normalizar_telefono c = Some t)"
  unfolding extraer_numero_telefono_def
  by (cases "texto = []") (auto dest: primer_movil_Some)

lemma catch_all_Some: "catch_all r = Some t \<longleftrightarrow> r = Inr (Some t)"
  by (cases r) (simp_all add: catch_all_def)

lemma buscar_en_seccion_Some:
  "buscar_en_seccion lib texto etiqueta = Some t \<Longrightarrow>
     t \<noteq> [] \<and> es_movil lib t = Inr True \<and> (\<exists>c. normalizar_telefono c = Some t)"
  unfolding buscar_en_seccion_def Let_def
  by (cases "rfind texto etiqueta") (simp_all add: catch_all_Some extraer_numero_telefono_Some)

lemma buscar_campo_telef_Some:
  "buscar_campo_telef w lib texto campo = Some t \<Longrightarrow>
     t \<noteq> [] \<and> es_movil lib t = Inr True \<and> (\<exists>c. normalizar_telefono c = Some t)"
  unfolding buscar_campo_telef_def Let_def
  by (cases "search_group (campo_prefix (strip (filter (\<lambda>c. c \<noteq> ord CHR '':'') campo))) campo_group texto")
     (simp_all add: catch_all_Some extraer_numero_telefono_Some)

lemma truthy_buscar_en_seccion:
  "truthy (buscar_en_seccion lib texto etiqueta) \<longleftrightarrow> buscar_en_seccion lib texto etiqueta \<noteq> None"
  by (cases "buscar_en_seccion lib texto etiqueta")
     (auto simp: truthy_def dest: buscar_en_seccion_Some)

lemma truthy_buscar_campo_telef:
  "truthy (buscar_campo_telef w lib texto campo) \<longleftrightarrow> buscar_campo_telef w lib texto campo \<noteq> None"
  by (cases "buscar_campo_telef w lib texto campo")
     (auto simp: truthy_def dest: buscar_campo_telef_Some)

lemma buscar_en_seccion_empty: "etiqueta \<noteq> [] \<Longrightarrow> buscar_en_seccion lib [] etiqueta = None"
  by (simp add: buscar_en_seccion_def)

lemma buscar_campo_telef_empty_1: "buscar_campo_telef w lib [] (ustr ''TELEF-1:'') = None"
  by code_simp

lemma buscar_campo_telef_empty_2: "buscar_campo_telef w lib [] (ustr ''TELEF-2:'') = None"
  by code_simp

lemma first_some_Cons:
  "first_some (x # r) = (if x \<noteq> None then x else first_some r)"
  by (cases x) simp_all

lemma extraer_telefono_first_some:
  "extraer_telefono w lib texto =
     first_some [buscar_en_seccion lib texto (ustr ''OBSERVACIONES MANUALES:''),
                 buscar_en_seccion lib texto (ustr ''DESCRIPCION:''),
                 buscar_campo_telef w lib texto (ustr ''TELEF-1:''),
                 buscar_campo_telef w lib texto (ustr ''TELEF-2:'')]"
proof (cases "texto = []")
  case True
  have e1: "buscar_en_seccion lib [] (ustr ''OBSERVACIONES MANUALES:'') = None"
    by (rule buscar_en_seccion_empty) simp
  have e2: "buscar_en_seccion lib [] (ustr ''DESCRIPCION:'') = None"
    by (rule buscar_en_seccion_empty) simp
  show ?thesis
    unfolding True extraer_telefono_def e1 e2 buscar_campo_telef_empty_1
      buscar_campo_telef_empty_2
    by (simp del: ustr_Cons)
next
  case False
  then show ?thesis
    unfolding extraer_telefono_def Let_def first_some_Cons
      truthy_buscar_en_seccion truthy_buscar_campo_telef
    by (simp del: ustr_Cons)
qed

lemma first_some_mem: "first_some xs = Some t \<Longrightarrow> Some t \<in> set xs"
  by (induction xs rule: first_some.induct) auto

lemma extraer_telefono_Some:
  assumes "extraer_telefono w lib texto = Some t"
  shows "t \<noteq> [] \<and> es_movil lib t = Inr True \<and> (\<exists>c. normalizar_telefono c = Some t)"
proof -
  from assms have "Some t \<in> set [buscar_en_seccion lib texto (ustr ''OBSERVACIONES MANUALES:''),
                 buscar_en_seccion lib texto (ustr ''DESCRIPCION:''),
                 buscar_campo_telef w lib texto (ustr ''TELEF-1:''),
                 buscar_campo_telef w lib texto (ustr ''TELEF-2:'')]"
    unfolding extraer_telefono_first_some by (rule first_some_mem)
  then consider "buscar_en_seccion lib texto (ustr ''OBSERVACIONES MANUALES:'') = Some t"
    | "buscar_en_seccion lib texto (ustr ''DESCRIPCION:'') = Some t"
    | "buscar_campo_telef w lib texto (ustr ''TELEF-1:'') = Some t"
    | "buscar_campo_telef w lib texto (ustr ''TELEF-2:'') = Some t"
    by force
  then show ?thesis
    by cases (erule buscar_en_seccion_Some buscar_campo_telef_Some)+
qed

text \<open>
  C1. For every text and every library, \<open>extraer_telefono\<close> returns the first number
  found when the four labels are tried in the order \<open>OBSERVACIONES MANUALES\<close>,
  \<open>DESCRIPCION\<close>, \<open>TELEF-1\<close>, \<open>TELEF-2\<close>; in particular a number found in the
  \<open>OBSERVACIONES MANUALES\<close> section is the result, whatever the other three labels hold.
\<close>

theorem extraer_telefono_priority:
  "extraer_telefono w lib texto =
     first_some [buscar_en_seccion lib texto (ustr ''OBSERVACIONES MANUALES:''),
                 buscar_en_seccion lib texto (ustr ''DESCRIPCION:''),
                 buscar_campo_telef w lib texto (ustr ''TELEF-1:''),
                 buscar_campo_telef w lib texto (ustr ''TELEF-2:'')]
   \<and> (buscar_en_seccion lib texto (ustr ''OBSERVACIONES MANUALES:'') = Some t
        \<longrightarrow> extraer_telefono w lib texto = Some t)"
  by (simp add: extraer_telefono_first_some)

theorem extraer_telefono_priority_witness:
  "buscar_en_seccion (Some toy_phonenumbers)
      (ustr ''OBSERVACIONES MANUALES: llamar 600111222\<newline>DESCRIPCION: otro 611222333\<newline>TELEF-1: 622333444\<newline>TELEF-2: 633444555'')
      (ustr ''OBSERVACIONES MANUALES:'') = Some (ustr ''600111222'')
   \<and> buscar_en_seccion (Some toy_phonenumbers)
      (ustr ''OBSERVACIONES MANUALES: llamar 600111222\<newline>DESCRIPCION: otro 611222333\<newline>TELEF-1: 622333444\<newline>TELEF-2: 633444555'')
      (ustr ''DESCRIPCION:'') = Some (ustr ''611222333'')
   \<and> buscar_campo_telef ascii_word (Some toy_phonenumbers)
      (ustr ''OBSERVACIONES MANUALES: llamar 600111222\<newline>DESCRIPCION: otro 611222333\<newline>TELEF-1: 622333444\<newline>TELEF-2: 633444555'')
      (ustr ''TELEF-1:'') = Some (ustr ''622333444'')
   \<and> buscar_campo_telef ascii_word (Some toy_phonenumbers)
      (ustr ''OBSERVACIONES MANUALES: llamar 600111222\<newline>DESCRIPCION: otro 611222333\<newline>TELEF-1: 622333444\<newline>TELEF-2: 633444555'')
      (ustr ''TELEF-2:'') = Some (ustr ''633444555'')
   \<and> extraer_telefono ascii_word (Some toy_phonenumbers)
      (ustr ''OBSERVACIONES MANUALES: llamar 600111222\<newline>DESCRIPCION: otro 611222333\<newline>TELEF-1: 622333444\<newline>TELEF-2: 633444555'')
      = Some (ustr ''600111222'')"
proof -
  let ?T = "(ustr ''OBSERVACIONES MANUALES: llamar 600111222\<newline>DESCRIPCION: otro 611222333\<newline>TELEF-1: 622333444\<newline>TELEF-2: 633444555'')"
  have o: "buscar_en_seccion (Some toy_phonenumbers) ?T (ustr ''OBSERVACIONES MANUALES:'') = Some (ustr ''600111222'')"
    by code_simp
  have d: "buscar_en_seccion (Some toy_phonenumbers) ?T (ustr ''DESCRIPCION:'') = Some (ustr ''611222333'')"
    by code_simp
  have t1: "buscar_campo_telef ascii_word (Some toy_phonenumbers) ?T (ustr ''TELEF-1:'') = Some (ustr ''622333444'')"
    by code_simp
  have t2: "buscar_campo_telef ascii_word (Some toy_phonenumbers) ?T (ustr ''TELEF-2:'') = Some (ustr ''633444555'')"
    by code_simp
  from extraer_telefono_priority[of ascii_word "Some toy_phonenumbers" ?T "(ustr ''600111222'')"] o
  have r: "extraer_telefono ascii_word (Some toy_phonenumbers) ?T = Some (ustr ''600111222'')"
    by blast
  show ?thesis
    by (intro conjI o d t1 t2 r)
qed

section \<open>The last occurrence of a section label\<close>

lemma rfind_None_iff: "rfind s sub = None \<longleftrightarrow> \<not> sublist sub s"
proof (induction s)
  case Nil
  then show ?case by simp
next
  case (Cons c cs)
  then show ?case
    by (cases "rfind cs sub") (simp_all add: sublist_Cons_right startswith_prefix)
qed

lemma rfind_Some_occurs:
  "rfind s sub = Some i \<Longrightarrow> i \<le> length s \<and> startswith (drop i s) sub"
proof (induction s arbitrary: i)
  case Nil
  then show ?case by (simp split: if_splits)
next
  case (Cons c cs)
  show ?case
  proof (cases "rfind cs sub")
    case None
    with Cons.prems show ?thesis by (simp split: if_splits)
  next
    case (Some j)
    with Cons.prems have "i = Suc j" by simp
    with Cons.IH[OF Some] show ?thesis by simp
  qed
qed

lemma rfind_Some_last:
  "rfind s sub = Some i \<Longrightarrow> i < j \<Longrightarrow> j \<le> length s \<Longrightarrow> \<not> startswith (drop j s) sub"
proof (induction s arbitrary: i j)
  case Nil
  then show ?case by simp
next
  case (Cons c cs)
  obtain j' where j: "j = Suc j'" using Cons.prems(2) by (cases j) auto
  show ?case
  proof (cases "rfind cs sub")
    case None
    then have "\<not> sublist sub cs" by (simp add: rfind_None_iff)
    moreover have "sublist (take (length sub) (drop j' cs)) cs"
      by (metis append_take_drop_id sublist_appendI)
    ultimately show ?thesis
      unfolding startswith_def j by auto
  next
    case (Some k)
    with Cons.prems(1) have "i = Suc k" by simp
    with Cons.prems j have "k < j'" "j' \<le> length cs" by simp_all
    from Cons.IH[OF Some this] show ?thesis by (simp add: j)
  qed
qed

lemma rfind_append_last:
  assumes "sub \<noteq> []" "\<not> sublist sub (tl (sub @ b))"
  shows "rfind (a @ sub @ b) sub = Some (length a)"
proof (induction a)
  case Nil
  from assms(1) obtain x xs where sub: "sub = x # xs" by (cases sub) auto
  with assms(2) have "rfind (xs @ b) sub = None"
    by (simp add: rfind_None_iff)
  then show ?case
    by (simp add: sub startswith_def)
next
  case (Cons c a)
  then show ?case by simp
qed

text \<open>
  Every text that holds the label splits at its last occurrence.
\<close>

lemma last_occurrence_exists:
  assumes "sublist etiqueta (s :: ustring)" "etiqueta \<noteq> []"
  shows "\<exists>a b. s = a @ etiqueta @ b \<and> \<not> sublist etiqueta (tl (etiqueta @ b))"
proof -
  from assms(1) obtain i where r: "rfind s etiqueta = Some i"
    using rfind_None_iff[of s etiqueta] by (cases "rfind s etiqueta") auto
  from rfind_Some_occurs[OF r] have i: "i \<le> length s" and st: "startswith (drop i s) etiqueta"
    by simp_all
  define b where "b = drop (i + length etiqueta) s"
  from st have d: "drop i s = etiqueta @ b"
    unfolding startswith_def b_def
    by (metis append_take_drop_id drop_drop add.commute)
  then have s: "s = take i s @ etiqueta @ b"
    by (metis append_take_drop_id)
  have "\<not> sublist etiqueta (tl (etiqueta @ b))"
  proof
    assume "sublist etiqueta (tl (etiqueta @ b))"
    then obtain ps ss where t: "tl (etiqueta @ b) = ps @ etiqueta @ ss"
      by (auto simp: sublist_def)
    from assms(2) d have "tl (etiqueta @ b) = drop (Suc i) s"
      by (metis drop_Suc tl_drop)
    with t have e: "drop (Suc i) s = ps @ etiqueta @ ss" by simp
    then have "drop (Suc i + length ps) s = etiqueta @ ss"
      by (metis append_eq_conv_conj drop_drop add.commute)
    then have 1: "startswith (drop (Suc i + length ps) s) etiqueta"
      by (simp add: startswith_def)
    from e have "length (drop (Suc i) s) = length ps + length etiqueta + length ss"
      by simp
    then have "length s - Suc i = length ps + length etiqueta + length ss"
      by simp
    moreover from assms(2) have "0 < length etiqueta"
      by (cases etiqueta) simp_all
    ultimately have 2: "Suc i + length ps \<le> length s"
      by arith
    from rfind_Some_last[OF r _ 2] 1 show False by simp
  qed
  with s show ?thesis by blast
qed

text \<open>
  C3. When the text is \<open>a @ etiqueta @ b\<close> and the label does not occur again further
  right, \<open>rfind\<close> selects that occurrence and the result of \<open>_buscar_en_seccion\<close> is
  computed from \<open>b\<close> alone: whatever precedes the last occurrence, earlier occurrences
  of the label included, plays no part. On the text with two \<open>OBSERVACIONES MANUALES:\<close>
  notes the result is \<open>611222333\<close>, the number of the second note.
\<close>

theorem seccion_last_occurrence:
  "(etiqueta \<noteq> [] \<and> \<not> sublist etiqueta (tl (etiqueta @ b)) \<longrightarrow>
      rfind (a @ etiqueta @ b) etiqueta = Some (length a)
      \<and> buscar_en_seccion lib (a @ etiqueta @ b) etiqueta
          = catch_all (extraer_numero_telefono lib (cortar_seccion b)))
   \<and> extraer_telefono w lib
        (ustr ''OBSERVACIONES MANUALES: contacto inicial 600111222. OBSERVACIONES MANUALES: actualizado, nuevo numero 611222333'')
      = Some (ustr ''611222333'')"
proof (intro conjI impI)
  assume h: "etiqueta \<noteq> [] \<and> \<not> sublist etiqueta (tl (etiqueta @ b))"
  then have "etiqueta \<noteq> []" and "\<not> sublist etiqueta (tl (etiqueta @ b))"
    by blast+
  then show r: "rfind (a @ etiqueta @ b) etiqueta = Some (length a)"
    by (rule rfind_append_last)
  show "buscar_en_seccion lib (a @ etiqueta @ b) etiqueta
          = catch_all (extraer_numero_telefono lib (cortar_seccion b))"
    by (simp add: buscar_en_seccion_def r)
next
  show "extraer_telefono w lib
        (ustr ''OBSERVACIONES MANUALES: contacto inicial 600111222. OBSERVACIONES MANUALES: actualizado, nuevo numero 611222333'')
      = Some (ustr ''611222333'')"
    by code_simp
qed

theorem seccion_last_occurrence_witness:
  "(ustr ''OBSERVACIONES MANUALES:'') \<noteq> []
   \<and> \<not> sublist (ustr ''OBSERVACIONES MANUALES:'')
          (tl (ustr ''OBSERVACIONES MANUALES:'' @ (ustr '' actualizado, nuevo numero 611222333'')))
   \<and> cortar_seccion (ustr '' actualizado, nuevo numero 611222333'')
        = ustr '' actualizado, nuevo numero 611222333''
   \<and> finditer PHONE_CANDIDATE_RE (ustr '' actualizado, nuevo numero 611222333'') = [(ustr '' 611222333'')]
   \<and> buscar_en_seccion (Some toy_phonenumbers)
        ((ustr ''OBSERVACIONES MANUALES: contacto inicial 600111222. '')
          @ ustr ''OBSERVACIONES MANUALES:'' @ (ustr '' actualizado, nuevo numero 611222333''))
        (ustr ''OBSERVACIONES MANUALES:'')
      = Some (ustr ''611222333'')"
proof -
  have h1: "(ustr ''OBSERVACIONES MANUALES:'') \<noteq> []" by simp
  have h2: "\<not> sublist (ustr ''OBSERVACIONES MANUALES:'')
          (tl (ustr ''OBSERVACIONES MANUALES:'' @ (ustr '' actualizado, nuevo numero 611222333'')))"
    by code_simp
  have c: "cortar_seccion (ustr '' actualizado, nuevo numero 611222333'')
        = ustr '' actualizado, nuevo numero 611222333''"
    by code_simp
  have f: "finditer PHONE_CANDIDATE_RE (ustr '' actualizado, nuevo numero 611222333'') = [(ustr '' 611222333'')]"
    by code_simp
  have e: "catch_all (extraer_numero_telefono (Some toy_phonenumbers)
             (ustr '' actualizado, nuevo numero 611222333'')) = Some (ustr ''611222333'')"
    by code_simp
  from seccion_last_occurrence[of "(ustr ''OBSERVACIONES MANUALES:'')"
      "(ustr '' actualizado, nuevo numero 611222333'')"
      "(ustr ''OBSERVACIONES MANUALES: contacto inicial 600111222. '')" "Some toy_phonenumbers"] h1 h2
  have "buscar_en_seccion (Some toy_phonenumbers)
        ((ustr ''OBSERVACIONES MANUALES: contacto inicial 600111222. '')
          @ ustr ''OBSERVACIONES MANUALES:'' @ (ustr '' actualizado, nuevo numero 611222333''))
        (ustr ''OBSERVACIONES MANUALES:'')
      = catch_all (extraer_numero_telefono (Some toy_phonenumbers)
          (cortar_seccion (ustr '' actualizado, nuevo numero 611222333'')))"
    by (simp only: simp_thms)
  then have r: "buscar_en_seccion (Some toy_phonenumbers)
        ((ustr ''OBSERVACIONES MANUALES: contacto inicial 600111222. '')
          @ ustr ''OBSERVACIONES MANUALES:'' @ (ustr '' actualizado, nuevo numero 611222333''))
        (ustr ''OBSERVACIONES MANUALES:'') = Some (ustr ''611222333'')"
    by (simp only: c e)
  show ?thesis by (intro conjI h1 h2 c f r)
qed

section \<open>The cut delimiters\<close>

lemma rex_match_siniestros_line:
  assumes "list_all is_space ws1" "list_all2 eq_ci (ustr ''SINIESTROS'') w" "list_all is_space ws2"
  shows "rex_match CUT_SINIESTROS (nl # ws1 @ w @ ws2 @ nl # b) \<noteq> None"
proof -
  have 1: "rex_ends [One (\<lambda>c. c = nl)] (nl # b) \<noteq> []"
    by simp
  have 2: "rex_ends [Many 0 is_space, One (\<lambda>c. c = nl)] (ws2 @ nl # b) \<noteq> []"
    using assms(3) 1 by (rule rex_ends_Many0_nonempty)
  have 3: "rex_ends (lit_ci (ustr ''SINIESTROS'') @ [Many 0 is_space, One (\<lambda>c. c = nl)])
              (w @ ws2 @ nl # b) \<noteq> []"
    unfolding rex_ends_lit_ci[OF assms(2)] by (rule 2)
  have 4: "rex_ends (Many 0 is_space # lit_ci (ustr ''SINIESTROS'') @ [Many 0 is_space, One (\<lambda>c. c = nl)])
              (ws1 @ w @ ws2 @ nl # b) \<noteq> []"
    using assms(1) 3 by (rule rex_ends_Many0_nonempty)
  have "rex_ends CUT_SINIESTROS (nl # ws1 @ w @ ws2 @ nl # b)
        = rex_ends (Many 0 is_space # lit_ci (ustr ''SINIESTROS'') @ [Many 0 is_space, One (\<lambda>c. c = nl)])
              (ws1 @ w @ ws2 @ nl # b)"
    by (simp add: CUT_SINIESTROS_def)
  with 4 show ?thesis
    by (simp add: rex_match_def split: list.splits)
qed

lemma fold_cut_step:
  "fold (cut_step chunk) pats init =
     (let starts = (case init of None \<Rightarrow> [] | Some j \<Rightarrow> [j])
                   @ map fst (List.map_filter (\<lambda>pat. rex_search pat chunk) pats)
      in if starts = [] then None else Some (Min (set starts)))"
proof (induction pats arbitrary: init)
  case Nil
  then show ?case by (cases init) (simp_all add: List.map_filter_simps)
next
  case (Cons pat pats)
  define rest where "rest = map fst (List.map_filter (\<lambda>pat. rex_search pat chunk) pats)"
  have step: "fold (cut_step chunk) (pat # pats) init =
     (let starts = (case cut_step chunk pat init of None \<Rightarrow> [] | Some j \<Rightarrow> [j]) @ rest
      in if starts = [] then None else Some (Min (set starts)))"
    unfolding rest_def by (simp only: fold_simps Cons.IH)
  show ?case
  proof (cases "rex_search pat chunk")
    case None
    then have "cut_step chunk pat init = init"
      by (simp add: cut_step_def)
    with None show ?thesis
      unfolding step by (simp add: List.map_filter_simps rest_def)
  next
    case (Some m)
    obtain st n where m: "m = (st, n)" by (cases m)
    have mf: "map fst (List.map_filter (\<lambda>pat. rex_search pat chunk) (pat # pats)) = st # rest"
      by (simp add: List.map_filter_simps Some m rest_def)
    show ?thesis
    proof (cases init)
      case None
      then have "cut_step chunk pat init = Some st"
        by (simp add: cut_step_def Some m)
      with None show ?thesis
        unfolding step mf by simp
    next
      case (Some i)
      then have c: "cut_step chunk pat init = Some (if st < i then st else i)"
        by (simp add: cut_step_def \<open>rex_search pat chunk = Some m\<close> m)
      have "Min (insert (if st < i then st else i) (set rest)) = Min (insert i (insert st (set rest)))"
        by (cases "set rest = {}") (auto simp: min_def)
      with Some show ?thesis
        unfolding step mf c by (simp add: Let_def)
    qed
  qed
qed

lemma set_map_filter: "set (List.map_filter f xs) = {y. \<exists>x\<in>set xs. f x = Some y}"
  by (induction xs) (auto simp: List.map_filter_simps split: option.splits)

lemma cortar_seccion_no_cut:
  assumes "\<forall>pat\<in>set CUT_PATTERNS. rex_search pat chunk = None"
  shows "cortar_seccion chunk = take 400 chunk"
proof -
  have "List.map_filter (\<lambda>pat. rex_search pat chunk) CUT_PATTERNS = []"
    using assms by (simp add: CUT_PATTERNS_def List.map_filter_simps)
  then show ?thesis
    by (simp add: cortar_seccion_def fold_cut_step)
qed

lemma cortar_seccion_cut_at:
  assumes "pat \<in> set CUT_PATTERNS" "rex_search pat chunk = Some (k, n)"
    and "\<forall>q\<in>set CUT_PATTERNS. \<forall>i m. rex_search q chunk = Some (i, m) \<longrightarrow> k \<le> i"
  shows "cortar_seccion chunk = take 400 (take k chunk)"
proof -
  define S where "S = set (map fst (List.map_filter (\<lambda>pat. rex_search pat chunk) CUT_PATTERNS))"
  have S: "S = {i. \<exists>q\<in>set CUT_PATTERNS. \<exists>m. rex_search q chunk = Some (i, m)}"
    unfolding S_def set_map set_map_filter by force
  have "k \<in> S"
    unfolding S using assms(1,2) by blast
  moreover have "k \<le> x" if "x \<in> S" for x
    using that assms(3) unfolding S by blast
  moreover have "finite S"
    unfolding S_def by simp
  ultimately have "Min S = k"
    by (intro Min_eqI) auto
  moreover have "map fst (List.map_filter (\<lambda>pat. rex_search pat chunk) CUT_PATTERNS) \<noteq> []"
    using \<open>k \<in> S\<close> unfolding S_def by auto
  ultimately show ?thesis
    by (simp add: cortar_seccion_def fold_cut_step S_def)
qed

lemma cortar_seccion_length_le:
  assumes "pat \<in> set CUT_PATTERNS" "rex_search pat chunk = Some (i, n)"
  shows "length (cortar_seccion chunk) \<le> i"
proof -
  define S where "S = set (map fst (List.map_filter (\<lambda>pat. rex_search pat chunk) CUT_PATTERNS))"
  have "i \<in> S"
    unfolding S_def set_map set_map_filter using assms by force
  moreover have "finite S"
    unfolding S_def by simp
  ultimately have "Min S \<le> i"
    by (rule_tac Min_le)
  moreover have "map fst (List.map_filter (\<lambda>pat. rex_search pat chunk) CUT_PATTERNS) \<noteq> []"
    using \<open>i \<in> S\<close> unfolding S_def by auto
  ultimately show ?thesis
    by (simp add: cortar_seccion_def fold_cut_step S_def)
qed

lemma cortar_seccion_set: "set (cortar_seccion chunk) \<subseteq> set chunk"
proof -
  have "set (take 400 u) \<subseteq> set u" for u :: ustring
    by (rule set_take_subset)
  moreover have "set (take i chunk) \<subseteq> set chunk" for i
    by (rule set_take_subset)
  ultimately show ?thesis
    unfolding cortar_seccion_def Let_def
    by (cases "fold (cut_step chunk) CUT_PATTERNS None") (simp, fastforce)
qed

lemma cut_pattern_needs_newline:
  assumes "q \<in> set CUT_PATTERNS" "rex_match q s \<noteq> None"
  shows "s \<noteq> [] \<and> hd s = nl"
proof -
  from assms(1) obtain r where q: "q = One (\<lambda>c. c = nl) # r"
    by (auto simp: CUT_PATTERNS_def CUT_DASHES_def CUT_SINIESTROS_def CUT_TABLA_def)
  from assms(2) have "rex_ends q s \<noteq> []"
    by (auto simp: rex_match_def)
  then show ?thesis
    unfolding q by (cases s) (auto split: if_splits)
qed

lemma no_cut_before_newline:
  assumes "nl \<notin> set u" "q \<in> set CUT_PATTERNS" "j < length u"
  shows "rex_match q (drop j (u @ v)) = None"
proof (rule ccontr)
  assume "rex_match q (drop j (u @ v)) \<noteq> None"
  from cut_pattern_needs_newline[OF assms(2) this] have "hd (drop j (u @ v)) = nl"
    by simp
  moreover from assms(3) have "hd (drop j (u @ v)) = u ! j"
    by (simp add: hd_drop_conv_nth nth_append)
  ultimately have "u ! j = nl" by simp
  with assms(1,3) show False
    by (metis nth_mem)
qed

lemma dashes_match:
  "rex_match CUT_DASHES (nl # ustr ''----------'' @ nl # rest) \<noteq> None"
proof -
  have "rex_ends CUT_DASHES (nl # ustr ''----------'' @ nl # rest) \<noteq> []"
    by (simp add: CUT_DASHES_def is_space_def nl_def Let_def)
  then show ?thesis
    by (simp add: rex_match_def split: list.splits)
qed

lemma cortar_seccion_dashes:
  assumes "nl \<notin> set u"
  shows "cortar_seccion (u @ nl # ustr ''----------'' @ nl # rest) = take 400 u"
proof -
  let ?chunk = "u @ nl # ustr ''----------'' @ nl # rest"
  have 1: "CUT_DASHES \<in> set CUT_PATTERNS"
    by (simp add: CUT_PATTERNS_def)
  have 2: "rex_match CUT_DASHES (drop (length u) ?chunk) \<noteq> None"
    using dashes_match[of rest] by simp
  from rex_search_leftmost_le[OF 2] obtain i n
    where s: "rex_search CUT_DASHES ?chunk = Some (i, n)" and i: "i \<le> length u"
    by auto
  have ge: "length u \<le> k" if "q \<in> set CUT_PATTERNS" "rex_search q ?chunk = Some (k, m)" for q k m
  proof (rule ccontr)
    assume "\<not> length u \<le> k"
    then have "k < length u" by simp
    from no_cut_before_newline[OF assms that(1) this]
    have "rex_match q (drop k ?chunk) = None" .
    with rex_search_sound[OF that(2)] show False by simp
  qed
  from ge[OF 1 s] i have "i = length u" by simp
  with s have "rex_search CUT_DASHES ?chunk = Some (length u, n)" by simp
  from cortar_seccion_cut_at[OF 1 this] ge
  have "cortar_seccion ?chunk = take 400 (take (length u) ?chunk)"
    by blast
  then show ?thesis by simp
qed

text \<open>
  C8, as stated, fails: the second pattern does not match a line that holds other text
  beside the word \<open>SINIESTROS\<close>. The section below is left whole, and the number on
  its \<open>SINIESTROS\<close> line is the one extracted.
\<close>

theorem siniestros_line_with_text_not_cut:
  "cortar_seccion (ustr '' ver tabla\<newline>TABLA SINIESTROS 612345678\<newline>fin'')
     = ustr '' ver tabla\<newline>TABLA SINIESTROS 612345678\<newline>fin''
   \<and> extraer_telefono ascii_word (Some toy_phonenumbers)
        (ustr ''DESCRIPCION: ver tabla\<newline>TABLA SINIESTROS 612345678\<newline>fin'')
     = Some (ustr ''612345678'')"
  by code_simp

text \<open>
  C8, amended. The section is left uncut when no cut pattern matches anywhere, and is cut
  at \<open>k\<close> when some cut pattern matches at \<open>k\<close> and none matches further left: the cut is
  at the earliest start of a match of the three patterns. The second pattern matches a
  newline followed by a line that holds only the word \<open>SINIESTROS\<close> (in either case of
  each letter, with optional white space around it) and its closing newline; a section
  with such a line is cut at or before the newline in front of that line.
\<close>

theorem cortar_seccion_earliest_cut:
  "((\<forall>pat\<in>set CUT_PATTERNS. \<forall>j\<le>length chunk. rex_match pat (drop j chunk) = None)
      \<longrightarrow> cortar_seccion chunk = take 400 chunk)
   \<and> (pat \<in> set CUT_PATTERNS \<and> k \<le> length chunk \<and> rex_match pat (drop k chunk) \<noteq> None
        \<and> (\<forall>q\<in>set CUT_PATTERNS. \<forall>j<k. rex_match q (drop j chunk) = None)
      \<longrightarrow> cortar_seccion chunk = take 400 (take k chunk))
   \<and> (list_all is_space ws1 \<and> list_all2 eq_ci (ustr ''SINIESTROS'') w \<and> list_all is_space ws2
      \<longrightarrow> length (cortar_seccion (a @ [nl] @ ws1 @ w @ ws2 @ [nl] @ b)) \<le> length a)"
proof (intro conjI impI)
  assume h: "\<forall>pat\<in>set CUT_PATTERNS. \<forall>j\<le>length chunk. rex_match pat (drop j chunk) = None"
  have "rex_search q chunk = None" if q: "q \<in> set CUT_PATTERNS" for q
  proof (cases "rex_search q chunk")
    case None
    then show ?thesis .
  next
    case (Some m)
    obtain i n where "m = (i, n)" by (cases m)
    with Some rex_search_sound[of q chunk i n] h q show ?thesis by auto
  qed
  then show "cortar_seccion chunk = take 400 chunk"
    by (intro cortar_seccion_no_cut) blast
next
  assume h: "pat \<in> set CUT_PATTERNS \<and> k \<le> length chunk \<and> rex_match pat (drop k chunk) \<noteq> None
        \<and> (\<forall>q\<in>set CUT_PATTERNS. \<forall>j<k. rex_match q (drop j chunk) = None)"
  then have pat: "pat \<in> set CUT_PATTERNS" and k: "k \<le> length chunk"
    and m: "rex_match pat (drop k chunk) \<noteq> None"
    and none: "\<forall>q\<in>set CUT_PATTERNS. \<forall>j<k. rex_match q (drop j chunk) = None"
    by blast+
  have ge: "k \<le> i" if "q \<in> set CUT_PATTERNS" "rex_search q chunk = Some (i, n)" for q i n
  proof (rule ccontr)
    assume "\<not> k \<le> i"
    then have "i < k" by simp
    with none that(1) have "rex_match q (drop i chunk) = None" by blast
    with rex_search_sound[OF that(2)] show False by simp
  qed
  from rex_search_leftmost_le[OF m k] obtain i n
    where s: "rex_search pat chunk = Some (i, n)" and "i \<le> k"
    by blast
  with ge[OF pat s] have "i = k" by simp
  with s have "rex_search pat chunk = Some (k, n)" by simp
  with pat show "cortar_seccion chunk = take 400 (take k chunk)"
    using ge by (intro cortar_seccion_cut_at[where pat = pat and n = n]) blast+
next
  assume h: "list_all is_space ws1 \<and> list_all2 eq_ci (ustr ''SINIESTROS'') w \<and> list_all is_space ws2"
  let ?chunk = "a @ [nl] @ ws1 @ w @ ws2 @ [nl] @ b"
  from h have "rex_match CUT_SINIESTROS (nl # ws1 @ w @ ws2 @ nl # b) \<noteq> None"
    by (intro rex_match_siniestros_line) blast+
  then have "rex_match CUT_SINIESTROS (drop (length a) ?chunk) \<noteq> None"
    by simp
  moreover have "length a \<le> length ?chunk"
    by simp
  ultimately obtain i n where s: "rex_search CUT_SINIESTROS ?chunk = Some (i, n)"
    and i: "i \<le> length a"
    using rex_search_leftmost_le by blast
  have "CUT_SINIESTROS \<in> set CUT_PATTERNS"
    by (simp add: CUT_PATTERNS_def)
  from cortar_seccion_length_le[OF this s] i
  show "length (cortar_seccion ?chunk) \<le> length a"
    by simp
qed

theorem cortar_seccion_earliest_cut_witness:
  "list_all (\<lambda>q. rex_search q (ustr '' ver tabla\<newline>TABLA SINIESTROS 612345678\<newline>fin'') = None) CUT_PATTERNS
   \<and> cortar_seccion (ustr '' ver tabla\<newline>TABLA SINIESTROS 612345678\<newline>fin'')
       = take 400 (ustr '' ver tabla\<newline>TABLA SINIESTROS 612345678\<newline>fin'')
   \<and> rex_search CUT_DASHES (ustr '' llamar\<newline>  siniestros \<newline>612345678'') = None
   \<and> rex_search CUT_SINIESTROS (ustr '' llamar\<newline>  siniestros \<newline>612345678'') = Some (7, 15)
   \<and> rex_search CUT_TABLA (ustr '' llamar\<newline>  siniestros \<newline>612345678'') = None
   \<and> cortar_seccion (ustr '' llamar\<newline>  siniestros \<newline>612345678'') = ustr '' llamar''
   \<and> list_all is_space (ustr ''  '') \<and> list_all2 eq_ci (ustr ''SINIESTROS'') (ustr ''siniestros'')
   \<and> list_all is_space (ustr '' '')
   \<and> length (cortar_seccion (ustr '' llamar'' @ [nl] @ ustr ''  '' @ ustr ''siniestros'' @ ustr '' '' @ [nl] @ (ustr ''612345678'')))
       \<le> length (ustr '' llamar'')"
proof -
  let ?A = "(ustr '' ver tabla\<newline>TABLA SINIESTROS 612345678\<newline>fin'')"
  let ?B = "(ustr '' llamar\<newline>  siniestros \<newline>612345678'')"
  have a: "list_all (\<lambda>q. rex_search q ?A = None) CUT_PATTERNS"
    by code_simp
  then have ha: "\<forall>pat\<in>set CUT_PATTERNS. \<forall>j\<le>length ?A. rex_match pat (drop j ?A) = None"
    unfolding list_all_iff using rex_search_None by blast
  from cortar_seccion_earliest_cut[of ?A] ha
  have ra: "cortar_seccion ?A = take 400 ?A"
    by blast
  have b1: "rex_search CUT_DASHES ?B = None"
    by code_simp
  have b2: "rex_search CUT_SINIESTROS ?B = Some (7, 15)"
    by code_simp
  have b3: "rex_search CUT_TABLA ?B = None"
    by code_simp
  have n1: "\<forall>j<7. rex_match CUT_DASHES (drop j ?B) = None"
    using rex_search_None[OF b1] by (simp del: drop_Cons_numeral)
  have n2: "\<forall>j<7. rex_match CUT_SINIESTROS (drop j ?B) = None"
    using rex_search_sound[OF b2] by blast
  have n3: "\<forall>j<7. rex_match CUT_TABLA (drop j ?B) = None"
    using rex_search_None[OF b3] by (simp del: drop_Cons_numeral)
  have hb4: "\<forall>q\<in>set CUT_PATTERNS. \<forall>j<7. rex_match q (drop j ?B) = None"
    unfolding CUT_PATTERNS_def using n1 n2 n3 by simp
  have hb1: "CUT_SINIESTROS \<in> set CUT_PATTERNS"
    by (simp add: CUT_PATTERNS_def)
  have hb2: "7 \<le> length ?B"
    by simp
  have hb3: "rex_match CUT_SINIESTROS (drop 7 ?B) \<noteq> None"
    using rex_search_sound[OF b2] by simp
  from cortar_seccion_earliest_cut[of ?B CUT_SINIESTROS 7] hb1 hb2 hb3 hb4
  have "cortar_seccion ?B = take 400 (take 7 ?B)"
    by blast
  then have rb: "cortar_seccion ?B = ustr '' llamar''"
    by simp
  have c1: "list_all is_space (ustr ''  '')" by code_simp
  have c2: "list_all2 eq_ci (ustr ''SINIESTROS'') (ustr ''siniestros'')" by code_simp
  have c3: "list_all is_space (ustr '' '')" by code_simp
  from cortar_seccion_earliest_cut[of _ _ _ "(ustr ''  '')" "(ustr ''siniestros'')" "(ustr '' '')" "(ustr '' llamar'')"
      "(ustr ''612345678'')"] c1 c2 c3
  have rc: "length (cortar_seccion (ustr '' llamar'' @ [nl] @ ustr ''  '' @ ustr ''siniestros'' @ ustr '' '' @ [nl] @ (ustr ''612345678'')))
       \<le> length (ustr '' llamar'')"
    by blast
  show ?thesis
    by (intro conjI a ra b1 b2 b3 rb c1 c2 c3 rc)
qed

lemma descripcion_section_text:
  "cortar_seccion
     (ustr '' llamar al 612345678\<newline>----------\<newline>SINIESTROS\<newline>999999999'' @ suf)
     = ustr '' llamar al 612345678''"
proof -
  have n: "nl \<notin> set (ustr '' llamar al 612345678'')"
    by (simp add: nl_def ord_def)
  have "ustr '' llamar al 612345678\<newline>----------\<newline>SINIESTROS\<newline>999999999'' @ suf
      = ustr '' llamar al 612345678'' @ nl # ustr ''----------'' @ nl
          # (ustr ''SINIESTROS\<newline>999999999'' @ suf)"
    by (simp add: nl_def ord_def)
  with cortar_seccion_dashes[OF n, of "ustr ''SINIESTROS\<newline>999999999'' @ suf"]
  show ?thesis
    by simp
qed

lemma descripcion_section_result:
  "catch_all (extraer_numero_telefono lib (ustr '' llamar al 612345678''))
     = Some (ustr ''612345678'')"
  by code_simp

text \<open>
  C4, as stated, fails for a text that holds the snippet together with other labels: a
  number in an \<open>OBSERVACIONES MANUALES\<close> section comes first, and a later
  \<open>DESCRIPCION:\<close> replaces the section of the snippet.
\<close>

theorem descripcion_snippet_not_overall:
  "extraer_telefono ascii_word (Some toy_phonenumbers)
     (ustr ''OBSERVACIONES MANUALES: 600111222\<newline>DESCRIPCION: llamar al 612345678\<newline>----------\<newline>SINIESTROS\<newline>999999999'')
     = Some (ustr ''600111222'')
   \<and> extraer_telefono ascii_word (Some toy_phonenumbers)
     (ustr ''DESCRIPCION: llamar al 612345678\<newline>----------\<newline>SINIESTROS\<newline>999999999\<newline>DESCRIPCION: sin datos'')
     = None"
  by code_simp

text \<open>
  C4, amended. Let the text hold the snippet \<open>DESCRIPCION: llamar al 612345678\<close>, a
  line of ten dashes, \<open>SINIESTROS\<close>, \<open>999999999\<close>, with any text in front and any text
  after it. The section that starts after the snippet's label is cut to
  \<open> llamar al 612345678\<close>, whose only candidate normalises to \<open>612345678\<close>: nothing
  from the dashes on is scanned. If the label \<open>DESCRIPCION:\<close> does not occur again after
  the snippet's and the search of \<open>OBSERVACIONES MANUALES\<close> finds nothing, the result of
  the extraction is \<open>612345678\<close>; so it is for the snippet alone.
\<close>

theorem descripcion_cut_at_dashes:
  "cortar_seccion
     (ustr '' llamar al 612345678\<newline>----------\<newline>SINIESTROS\<newline>999999999'' @ suf)
     = ustr '' llamar al 612345678''
   \<and> finditer PHONE_CANDIDATE_RE (ustr '' llamar al 612345678'') = [ustr '' 612345678'']
   \<and> normalizar_telefono (ustr '' 612345678'') = Some (ustr ''612345678'')
   \<and> (\<not> sublist (ustr ''DESCRIPCION:'')
          (tl (ustr ''DESCRIPCION: llamar al 612345678\<newline>----------\<newline>SINIESTROS\<newline>999999999'' @ suf))
        \<and> buscar_en_seccion lib
             (pre @ ustr ''DESCRIPCION: llamar al 612345678\<newline>----------\<newline>SINIESTROS\<newline>999999999'' @ suf)
             (ustr ''OBSERVACIONES MANUALES:'') = None
       \<longrightarrow> extraer_telefono w lib
             (pre @ ustr ''DESCRIPCION: llamar al 612345678\<newline>----------\<newline>SINIESTROS\<newline>999999999'' @ suf)
           = Some (ustr ''612345678''))
   \<and> extraer_telefono w lib
         (ustr ''DESCRIPCION: llamar al 612345678\<newline>----------\<newline>SINIESTROS\<newline>999999999'')
       = Some (ustr ''612345678'')"
proof (intro conjI impI)
  show "cortar_seccion
     (ustr '' llamar al 612345678\<newline>----------\<newline>SINIESTROS\<newline>999999999'' @ suf)
     = ustr '' llamar al 612345678''"
    by (rule descripcion_section_text)
  show "finditer PHONE_CANDIDATE_RE (ustr '' llamar al 612345678'') = [ustr '' 612345678'']"
    by code_simp
  show "normalizar_telefono (ustr '' 612345678'') = Some (ustr ''612345678'')"
    by code_simp
  show "extraer_telefono w lib
         (ustr ''DESCRIPCION: llamar al 612345678\<newline>----------\<newline>SINIESTROS\<newline>999999999'')
       = Some (ustr ''612345678'')"
    by code_simp
next
  let ?L = "ustr ''DESCRIPCION:''"
  let ?B = "ustr '' llamar al 612345678\<newline>----------\<newline>SINIESTROS\<newline>999999999''"
  let ?S = "ustr ''DESCRIPCION: llamar al 612345678\<newline>----------\<newline>SINIESTROS\<newline>999999999''"
  assume h: "\<not> sublist ?L (tl (?S @ suf))
        \<and> buscar_en_seccion lib (pre @ ?S @ suf) (ustr ''OBSERVACIONES MANUALES:'') = None"
  have split: "?S @ suf = ?L @ ?B @ suf"
    by simp
  have ne: "?L \<noteq> []"
    by simp
  from h have "\<not> sublist ?L (tl (?L @ ?B @ suf))"
    unfolding split by blast
  with ne have "rfind (pre @ ?L @ ?B @ suf) ?L = Some (length pre)"
    by (rule rfind_append_last)
  then have "buscar_en_seccion lib (pre @ ?L @ ?B @ suf) ?L
      = catch_all (extraer_numero_telefono lib (cortar_seccion (?B @ suf)))"
    by (simp add: buscar_en_seccion_def del: ustr_Cons)
  then have d: "buscar_en_seccion lib (pre @ ?S @ suf) ?L = Some (ustr ''612345678'')"
    unfolding split by (simp only: descripcion_section_text descripcion_section_result)
  from h have o: "buscar_en_seccion lib (pre @ ?S @ suf) (ustr ''OBSERVACIONES MANUALES:'') = None"
    by blast
  show "extraer_telefono w lib (pre @ ?S @ suf) = Some (ustr ''612345678'')"
    unfolding extraer_telefono_first_some o d by (simp del: ustr_Cons)
qed

theorem descripcion_cut_at_dashes_witness:
  "\<not> sublist (ustr ''DESCRIPCION:'')
        (tl (ustr ''DESCRIPCION: llamar al 612345678\<newline>----------\<newline>SINIESTROS\<newline>999999999''
              @ ustr ''\<newline>TELEF-1: 699888777''))
   \<and> buscar_en_seccion (Some toy_phonenumbers)
        (ustr ''FICHA 1\<newline>''
          @ ustr ''DESCRIPCION: llamar al 612345678\<newline>----------\<newline>SINIESTROS\<newline>999999999''
          @ ustr ''\<newline>TELEF-1: 699888777'')
        (ustr ''OBSERVACIONES MANUALES:'') = None
   \<and> extraer_telefono ascii_word (Some toy_phonenumbers)
        (ustr ''FICHA 1\<newline>''
          @ ustr ''DESCRIPCION: llamar al 612345678\<newline>----------\<newline>SINIESTROS\<newline>999999999''
          @ ustr ''\<newline>TELEF-1: 699888777'')
      = Some (ustr ''612345678'')"
proof -
  let ?S = "ustr ''DESCRIPCION: llamar al 612345678\<newline>----------\<newline>SINIESTROS\<newline>999999999''"
  have h1: "\<not> sublist (ustr ''DESCRIPCION:'') (tl (?S @ ustr ''\<newline>TELEF-1: 699888777''))"
    by code_simp
  have h2: "buscar_en_seccion (Some toy_phonenumbers)
        (ustr ''FICHA 1\<newline>'' @ ?S @ ustr ''\<newline>TELEF-1: 699888777'')
        (ustr ''OBSERVACIONES MANUALES:'') = None"
    by code_simp
  from descripcion_cut_at_dashes[of "ustr ''\<newline>TELEF-1: 699888777''" "Some toy_phonenumbers"
      "ustr ''FICHA 1\<newline>''" ascii_word] h1 h2
  have r: "extraer_telefono ascii_word (Some toy_phonenumbers)
        (ustr ''FICHA 1\<newline>'' @ ?S @ ustr ''\<newline>TELEF-1: 699888777'')
      = Some (ustr ''612345678'')"
    by blast
  show ?thesis
    by (intro conjI h1 h2 r)
qed

section \<open>The fields \<open>TELEF-1\<close> and \<open>TELEF-2\<close>\<close>

text \<open>
  The value captured for a field holds no letter, so cutting it at the word \<open>HORA\<close>
  never changes it, whatever the table of \<open>\w\<close>.
\<close>

lemma eq_ci_H: "eq_ci (ord CHR ''H'') c \<longleftrightarrow> c = ord CHR ''H'' \<or> c = ord CHR ''h''"
  by (auto simp: eq_ci_def ascii_lower_def ord_def split: if_splits)

lemma field_char_not_H:
  assumes "c = ord CHR ''+'' \<or> is_ascii_digit c \<or> is_field_char c"
  shows "\<not> eq_ci (ord CHR ''H'') c"
proof
  assume "eq_ci (ord CHR ''H'') c"
  then have "c = 72 \<or> c = 104"
    unfolding eq_ci_H by (simp add: ord_def)
  then show False
    using assms
    by (auto simp: is_field_char_def is_ascii_digit_def is_space_def ord_def)
qed

lemma search_HORA_None:
  "list_all (\<lambda>c. \<not> eq_ci (ord CHR ''H'') c) s \<Longrightarrow> search_HORA w bef s = None"
  by (induction s arbitrary: bef) (auto simp: list_all2_Cons1)

lemma split_HORA_first_field_chars:
  assumes "list_all (\<lambda>c. c = ord CHR ''+'' \<or> is_ascii_digit c \<or> is_field_char c) valor"
  shows "split_HORA_first w valor = valor"
proof -
  from assms have "list_all (\<lambda>c. \<not> eq_ci (ord CHR ''H'') c) valor"
    unfolding list_all_iff using field_char_not_H by blast
  then show ?thesis
    by (simp add: split_HORA_first_def search_HORA_None)
qed

lemma rex_ends_campo_group:
  assumes "e \<in> set (rex_ends campo_group r)"
  shows "\<exists>c m. r = c # m @ e \<and> (c = ord CHR ''+'' \<or> is_ascii_digit c)
           \<and> list_all is_field_char m"
proof (cases r)
  case Nil
  with assms show ?thesis by (simp add: campo_group_def)
next
  case (Cons c cs)
  with assms have p: "c = ord CHR ''+'' \<or> is_ascii_digit c"
    and "e \<in> set (take (length (many_ends is_field_char cs) - 6) (many_ends is_field_char cs))"
    by (auto simp: campo_group_def Let_def split: if_splits)
  then have "e \<in> set (many_ends is_field_char cs)"
    by (meson in_set_takeD)
  from many_ends_prefix[OF this] obtain m where "cs = m @ e" "list_all is_field_char m"
    by blast
  with p Cons show ?thesis by blast
qed

lemma group_here_campo_chars:
  assumes "group_here pre campo_group s = Some g"
  shows "list_all (\<lambda>c. c = ord CHR ''+'' \<or> is_ascii_digit c \<or> is_field_char c) g"
proof -
  from assms obtain rest where
    "concat (map (\<lambda>r. map (\<lambda>e. take (length r - length e) r)
                       (rex_ends campo_group r)) (rex_ends pre s)) = g # rest"
    by (auto simp: group_here_def split: list.splits)
  then have "g \<in> set (concat (map (\<lambda>r. map (\<lambda>e. take (length r - length e) r)
                       (rex_ends campo_group r)) (rex_ends pre s)))"
    by (metis list.set_intros(1))
  then obtain r e where e: "e \<in> set (rex_ends campo_group r)"
    and g: "g = take (length r - length e) r"
    by auto
  from rex_ends_campo_group[OF e] obtain c m where r: "r = c # m @ e"
    and c: "c = ord CHR ''+'' \<or> is_ascii_digit c" and m: "list_all is_field_char m"
    by blast
  from g r have "g = c # m"
    by simp
  with c m show ?thesis
    by (auto simp: list_all_iff)
qed

lemma search_group_campo_chars:
  "search_group pre campo_group s = Some g \<Longrightarrow>
     list_all (\<lambda>c. c = ord CHR ''+'' \<or> is_ascii_digit c \<or> is_field_char c) g"
proof (induction s)
  case Nil
  then show ?case by (simp add: group_here_campo_chars)
next
  case (Cons c cs)
  then show ?case
    by (cases "group_here pre campo_group (c # cs)") (simp_all add: group_here_campo_chars)
qed

lemma group_here_set:
  assumes "group_here pre grp s = Some g"
  shows "set g \<subseteq> set s"
proof -
  from assms obtain rest where
    "concat (map (\<lambda>r. map (\<lambda>e. take (length r - length e) r) (rex_ends grp r))
                 (rex_ends pre s)) = g # rest"
    by (auto simp: group_here_def split: list.splits)
  then have "g \<in> set (concat (map (\<lambda>r. map (\<lambda>e. take (length r - length e) r)
                       (rex_ends grp r)) (rex_ends pre s)))"
    by (metis list.set_intros(1))
  then obtain r e where r: "r \<in> set (rex_ends pre s)" and "e \<in> set (rex_ends grp r)"
    and g: "g = take (length r - length e) r"
    by auto
  from rex_ends_suffix[OF r] have "set r \<subseteq> set s"
    by (rule set_mono_suffix)
  with g show ?thesis
    using set_take_subset by fastforce
qed

lemma search_group_set: "search_group pre grp s = Some g \<Longrightarrow> set g \<subseteq> set s"
proof (induction s)
  case Nil
  then show ?case using group_here_set[of pre grp "[]" g] by simp
next
  case (Cons c cs)
  show ?case
  proof (cases "group_here pre grp (c # cs)")
    case None
    with Cons show ?thesis by auto
  next
    case (Some g')
    with Cons.prems have "g' = g" by simp
    with Some show ?thesis using group_here_set[of pre grp "c # cs" g] by simp
  qed
qed

text \<open>
  So no result depends on the table of \<open>\w\<close>.
\<close>

lemma buscar_campo_telef_any_word:
  "buscar_campo_telef w lib texto campo = buscar_campo_telef w' lib texto campo"
proof (cases "search_group (campo_prefix (strip (filter (\<lambda>c. c \<noteq> ord CHR '':'') campo)))
                campo_group texto")
  case None
  then show ?thesis by (simp add: buscar_campo_telef_def)
next
  case (Some valor0)
  from search_group_campo_chars[OF this]
  have "split_HORA_first w valor0 = valor0" "split_HORA_first w' valor0 = valor0"
    by (rule split_HORA_first_field_chars)+
  with Some show ?thesis by (simp add: buscar_campo_telef_def)
qed

lemma extraer_telefono_any_word:
  "extraer_telefono w lib texto = extraer_telefono w' lib texto"
  unfolding extraer_telefono_first_some
  using buscar_campo_telef_any_word[of w lib texto _ w'] by (simp del: ustr_Cons)

text \<open>
  C2. On the text \<open>TELEF-1:00685789868\<close> the field search captures \<open>00685789868\<close>, the
  only candidate; the normaliser strips the \<open>00\<close> and returns the nine digits
  \<open>685789868\<close>, which the classifier accepts as a national mobile, and the extraction
  returns \<open>685789868\<close>, whatever the library.
\<close>

theorem telef1_double_zero:
  "search_group (campo_prefix (ustr ''TELEF-1'')) campo_group (ustr ''TELEF-1:00685789868'')
     = Some (ustr ''00685789868'')
   \<and> finditer PHONE_CANDIDATE_RE (ustr ''00685789868'') = [ustr ''00685789868'']
   \<and> normalizar_telefono (ustr ''00685789868'') = Some (ustr ''685789868'')
   \<and> es_movil phonenumbers (ustr ''685789868'') = Inr True
   \<and> extraer_telefono w phonenumbers (ustr ''TELEF-1:00685789868'') = Some (ustr ''685789868'')"
proof (intro conjI)
  show "search_group (campo_prefix (ustr ''TELEF-1'')) campo_group (ustr ''TELEF-1:00685789868'')
     = Some (ustr ''00685789868'')"
    by code_simp
  show "finditer PHONE_CANDIDATE_RE (ustr ''00685789868'') = [ustr ''00685789868'']"
    by code_simp
  show "normalizar_telefono (ustr ''00685789868'') = Some (ustr ''685789868'')"
    by code_simp
  show "es_movil phonenumbers (ustr ''685789868'') = Inr True"
    by code_simp
  have "extraer_telefono ascii_word phonenumbers (ustr ''TELEF-1:00685789868'')
      = Some (ustr ''685789868'')"
    by code_simp
  then show "extraer_telefono w phonenumbers (ustr ''TELEF-1:00685789868'')
      = Some (ustr ''685789868'')"
    by (simp only: extraer_telefono_any_word[of w phonenumbers _ ascii_word])
qed

text \<open>
  C7, as stated, fails: the eight digits \<open>91234567\<close> are within the bounds of 8 to 15
  digits, so the normaliser does not reject them; it returns \<open>+91234567\<close>.
\<close>

theorem telef2_eight_digits_normalised:
  "finditer PHONE_CANDIDATE_RE (ustr ''91234567'') = [ustr ''91234567'']
   \<and> normalizar_telefono (ustr ''91234567'') = Some (ustr ''+91234567'')"
  by code_simp

lemma telef2_field_value:
  "search_group (campo_prefix (strip (filter (\<lambda>c. c \<noteq> ord CHR '':'') (ustr ''TELEF-2:'')))) campo_group
     (ustr ''TELEF-2: 91234567'') = Some (ustr ''91234567'')"
  by code_simp

lemma telef2_split: "strip (split_HORA_first w (ustr ''91234567'')) = ustr ''91234567''"
proof -
  have "list_all (\<lambda>c. c = ord CHR ''+'' \<or> is_ascii_digit c \<or> is_field_char c) (ustr ''91234567'')"
    by code_simp
  then have "split_HORA_first w (ustr ''91234567'') = ustr ''91234567''"
    by (rule split_HORA_first_field_chars)
  moreover have "strip (ustr ''91234567'') = ustr ''91234567''"
    by code_simp
  ultimately show ?thesis by (simp only:)
qed

lemma telef2_candidates: "finditer PHONE_CANDIDATE_RE (ustr ''91234567'') = [ustr ''91234567'']"
  by code_simp

lemma telef2_normalizado: "normalizar_telefono (ustr ''91234567'') = Some (ustr ''+91234567'')"
  by code_simp

lemma telef2_others:
  "buscar_en_seccion lib (ustr ''TELEF-2: 91234567'') (ustr ''OBSERVACIONES MANUALES:'') = None"
  "buscar_en_seccion lib (ustr ''TELEF-2: 91234567'') (ustr ''DESCRIPCION:'') = None"
  "buscar_campo_telef w lib (ustr ''TELEF-2: 91234567'') (ustr ''TELEF-1:'') = None"
  by code_simp+

lemma telef2_campo:
  "buscar_campo_telef w lib (ustr ''TELEF-2: 91234567'') (ustr ''TELEF-2:'')
     = (if es_movil lib (ustr ''+91234567'') = Inr True then Some (ustr ''+91234567'') else None)"
proof -
  have "buscar_campo_telef w lib (ustr ''TELEF-2: 91234567'') (ustr ''TELEF-2:'')
      = catch_all (primer_movil lib [ustr ''91234567''])"
    unfolding buscar_campo_telef_def Let_def telef2_field_value option.case telef2_split
      extraer_numero_telefono_def telef2_candidates
    by (simp add: ustr_not_Nil del: ustr_Cons)
  also have "\<dots> = (if es_movil lib (ustr ''+91234567'') = Inr True then Some (ustr ''+91234567'') else None)"
    by (cases "es_movil lib (ustr ''+91234567'')")
       (simp_all add: telef2_normalizado catch_all_def ustr_not_Nil del: ustr_Cons)
  finally show ?thesis .
qed

text \<open>
  C7, amended. On the text \<open>TELEF-2: 91234567\<close> the field search captures
  \<open>91234567\<close>, which the normaliser turns into \<open>+91234567\<close>; the extraction returns
  nothing exactly when the classifier does not accept \<open>+91234567\<close>, and returns
  \<open>+91234567\<close> when it does.
\<close>

theorem telef2_eight_digits:
  "search_group (campo_prefix (ustr ''TELEF-2'')) campo_group (ustr ''TELEF-2: 91234567'') = Some (ustr ''91234567'')
   \<and> normalizar_telefono (ustr ''91234567'') = Some (ustr ''+91234567'')
   \<and> extraer_telefono w lib (ustr ''TELEF-2: 91234567'')
       = (if es_movil lib (ustr ''+91234567'') = Inr True then Some (ustr ''+91234567'') else None)"
proof (intro conjI)
  show "search_group (campo_prefix (ustr ''TELEF-2'')) campo_group (ustr ''TELEF-2: 91234567'') = Some (ustr ''91234567'')"
    by code_simp
  show "normalizar_telefono (ustr ''91234567'') = Some (ustr ''+91234567'')"
    by (rule telef2_normalizado)
  show "extraer_telefono w lib (ustr ''TELEF-2: 91234567'')
       = (if es_movil lib (ustr ''+91234567'') = Inr True then Some (ustr ''+91234567'') else None)"
    unfolding extraer_telefono_first_some telef2_others telef2_campo
    by (simp del: ustr_Cons)
qed

theorem telef2_eight_digits_witness:
  "es_movil (Some toy_phonenumbers) (ustr ''+91234567'') = Inr False
   \<and> extraer_telefono ascii_word (Some toy_phonenumbers) (ustr ''TELEF-2: 91234567'') = None"
proof -
  have e: "es_movil (Some toy_phonenumbers) (ustr ''+91234567'') = Inr False"
    by code_simp
  from telef2_eight_digits[of ascii_word "Some toy_phonenumbers"] e
  have "extraer_telefono ascii_word (Some toy_phonenumbers) (ustr ''TELEF-2: 91234567'') = None"
    by simp
  with e show ?thesis by (intro conjI)
qed

section \<open>The shape of what is returned\<close>

text \<open>
  Every character of a number found is \<open>+\<close> or a digit of the text.
\<close>

lemma extraer_numero_telefono_chars:
  assumes "extraer_numero_telefono lib texto = Inr (Some t)"
  shows "set t \<subseteq> insert (ord CHR ''+'') {c \<in> set texto. is_digit c}"
proof -
  from assms have "primer_movil lib (finditer PHONE_CANDIDATE_RE texto) = Inr (Some t)"
    by (auto simp: extraer_numero_telefono_def split: if_splits)
  from primer_movil_Some[OF this] obtain c where c: "c \<in> set (finditer PHONE_CANDIDATE_RE texto)"
    and n: "normalizar_telefono c = Some t"
    by blast
  from finditer_set[OF c] normalizar_telefono_chars[OF n] show ?thesis
    by blast
qed

lemma buscar_en_seccion_chars:
  assumes "buscar_en_seccion lib texto etiqueta = Some t"
  shows "set t \<subseteq> insert (ord CHR ''+'') {c \<in> set texto. is_digit c}"
proof -
  from assms obtain pos where
    "extraer_numero_telefono lib (cortar_seccion (drop (pos + length etiqueta) texto))
       = Inr (Some t)"
    by (auto simp: buscar_en_seccion_def Let_def catch_all_Some split: option.splits)
  from extraer_numero_telefono_chars[OF this]
  have "set t \<subseteq> insert (ord CHR ''+'')
          {c \<in> set (cortar_seccion (drop (pos + length etiqueta) texto)). is_digit c}" .
  moreover have "set (cortar_seccion (drop (pos + length etiqueta) texto)) \<subseteq> set texto"
    using cortar_seccion_set set_drop_subset by fastforce
  ultimately show ?thesis by blast
qed

lemma buscar_campo_telef_chars:
  assumes "buscar_campo_telef w lib texto campo = Some t"
  shows "set t \<subseteq> insert (ord CHR ''+'') {c \<in> set texto. is_digit c}"
proof -
  from assms obtain valor0 where
    v: "search_group (campo_prefix (strip (filter (\<lambda>c. c \<noteq> ord CHR '':'') campo))) campo_group texto
          = Some valor0"
    and e: "extraer_numero_telefono lib (strip (split_HORA_first w valor0)) = Inr (Some t)"
    by (auto simp: buscar_campo_telef_def Let_def catch_all_Some split: option.splits)
  from search_group_campo_chars[OF v] have "split_HORA_first w valor0 = valor0"
    by (rule split_HORA_first_field_chars)
  with e have "extraer_numero_telefono lib (strip valor0) = Inr (Some t)"
    by simp
  from extraer_numero_telefono_chars[OF this]
  have "set t \<subseteq> insert (ord CHR ''+'') {c \<in> set (strip valor0). is_digit c}" .
  moreover have "set (strip valor0) \<subseteq> set texto"
    using set_strip search_group_set[OF v] by blast
  ultimately show ?thesis by blast
qed

lemma extraer_telefono_chars:
  assumes "extraer_telefono w lib texto = Some t"
  shows "set t \<subseteq> insert (ord CHR ''+'') {c \<in> set texto. is_digit c}"
proof -
  from assms have "Some t \<in> set [buscar_en_seccion lib texto (ustr ''OBSERVACIONES MANUALES:''),
                 buscar_en_seccion lib texto (ustr ''DESCRIPCION:''),
                 buscar_campo_telef w lib texto (ustr ''TELEF-1:''),
                 buscar_campo_telef w lib texto (ustr ''TELEF-2:'')]"
    unfolding extraer_telefono_first_some by (rule first_some_mem)
  then consider "buscar_en_seccion lib texto (ustr ''OBSERVACIONES MANUALES:'') = Some t"
    | "buscar_en_seccion lib texto (ustr ''DESCRIPCION:'') = Some t"
    | "buscar_campo_telef w lib texto (ustr ''TELEF-1:'') = Some t"
    | "buscar_campo_telef w lib texto (ustr ''TELEF-2:'') = Some t"
    by force
  then show ?thesis
    by cases (erule buscar_en_seccion_chars buscar_campo_telef_chars)+
qed

lemma extraer_telefono_mobile_shape:
  assumes "extraer_telefono w lib texto = Some t"
  shows "es_movil lib t = Inr True
     \<and> (if startswith t (ustr ''+'')
        then list_all is_digit (drop 1 t) \<and> 8 \<le> length t - 1 \<and> length t - 1 \<le> 15
        else length t = 9 \<and> list_all is_digit t \<and> t ! 0 \<in> set (ustr ''67''))"
proof -
  from extraer_telefono_Some[OF assms] obtain c where ne: "t \<noteq> []"
    and es: "es_movil lib t = Inr True" and n: "normalizar_telefono c = Some t"
    by blast
  from n have shape: "nine_digits t \<or> plus_digits t"
    by (rule normalizar_telefono_shape)
  show ?thesis
  proof (cases "startswith t (ustr ''+'')")
    case True
    have "\<not> nine_digits t"
    proof
      assume "nine_digits t"
      with ne have "is_digit (hd t)"
        by (cases t) (simp_all add: nine_digits_def)
      moreover from True ne have "hd t = ord CHR ''+''"
        by (cases t) (simp_all add: startswith_def)
      ultimately show False
        using digit_not_plus by auto
    qed
    with shape have "plus_digits t" by simp
    with True es show ?thesis by (simp add: plus_digits_def)
  next
    case False
    with shape have nd: "nine_digits t" by (auto simp: plus_digits_def)
    from es False ne have "length t = 9 \<and> t ! 0 \<in> set (ustr ''67'')"
      by (simp add: es_movil_def)
    with nd False es show ?thesis by (simp add: nine_digits_def)
  qed
qed

text \<open>
  C10, as stated, fails when a digit is one of \<open>0\<close> to \<open>9\<close>: the candidate pattern is
  compiled with \<open>re.UNICODE\<close> and \<open>\D\<close> removes no decimal digit of any script, so
  the text \<open>DESCRIPCION: 6\<close> followed by the fullwidth digits U+FF11 to U+FF18 gives
  back the \<open>6\<close> and those eight characters.
\<close>

theorem extraer_telefono_fullwidth_digits:
  "extraer_telefono ascii_word (Some toy_phonenumbers)
       (ustr ''DESCRIPCION: 6'' @ [0xFF11, 0xFF12, 0xFF13, 0xFF14, 0xFF15, 0xFF16, 0xFF17, 0xFF18])
     = Some (ustr ''6'' @ [0xFF11, 0xFF12, 0xFF13, 0xFF14, 0xFF15, 0xFF16, 0xFF17, 0xFF18])
   \<and> list_all is_ascii_digit (ustr ''6'' @ [0xFF11, 0xFF12, 0xFF13, 0xFF14, 0xFF15, 0xFF16, 0xFF17, 0xFF18]) = False"
  by code_simp

text \<open>
  C10, amended. Every number that \<open>extraer_telefono\<close> returns was accepted by
  \<open>_es_movil\<close>: without a leading \<open>+\<close> it is exactly nine digits and begins with 6 or
  7; with a leading \<open>+\<close> the rest is 8 to 15 digits. A digit is here a character that
  \<open>\d\<close> matches, a decimal digit of any script; each character of the number other
  than \<open>+\<close> is a digit that occurs in the text, so a text whose digits are among
  \<open>0\<close> to \<open>9\<close> gives a number written with \<open>0\<close> to \<open>9\<close>.
\<close>

theorem extraer_telefono_result_is_mobile:
  assumes "extraer_telefono w lib texto = Some t"
  shows "es_movil lib t = Inr True
     \<and> (if startswith t (ustr ''+'')
        then list_all is_digit (drop 1 t) \<and> 8 \<le> length t - 1 \<and> length t - 1 \<le> 15
        else length t = 9 \<and> list_all is_digit t \<and> t ! 0 \<in> set (ustr ''67''))
     \<and> set t \<subseteq> insert (ord CHR ''+'') {c \<in> set texto. is_digit c}"
proof -
  note a = extraer_telefono_mobile_shape[OF assms]
  note b = extraer_telefono_chars[OF assms]
  show ?thesis
    by (rule conjI[OF a[THEN conjunct1] conjI[OF a[THEN conjunct2] b]])
qed

theorem extraer_telefono_result_is_mobile_witness:
  "extraer_telefono ascii_word (Some toy_phonenumbers)
       (ustr ''OBSERVACIONES MANUALES: tel +33612345678'')
     = Some (ustr ''+33612345678'')
   \<and> es_movil (Some toy_phonenumbers) (ustr ''+33612345678'') = Inr True
   \<and> startswith (ustr ''+33612345678'') (ustr ''+'')
   \<and> list_all is_digit (drop 1 (ustr ''+33612345678''))
   \<and> 8 \<le> length (ustr ''+33612345678'') - 1 \<and> length (ustr ''+33612345678'') - 1 \<le> 15
   \<and> extraer_telefono ascii_word (Some toy_phonenumbers)
       (ustr ''DESCRIPCION: 6'' @ [0xFF11, 0xFF12, 0xFF13, 0xFF14, 0xFF15, 0xFF16, 0xFF17, 0xFF18])
     = Some (ustr ''6'' @ [0xFF11, 0xFF12, 0xFF13, 0xFF14, 0xFF15, 0xFF16, 0xFF17, 0xFF18])
   \<and> es_movil (Some toy_phonenumbers)
       (ustr ''6'' @ [0xFF11, 0xFF12, 0xFF13, 0xFF14, 0xFF15, 0xFF16, 0xFF17, 0xFF18]) = Inr True
   \<and> list_all is_digit (ustr ''6'' @ [0xFF11, 0xFF12, 0xFF13, 0xFF14, 0xFF15, 0xFF16, 0xFF17, 0xFF18])"
proof -
  let ?u = "ustr ''6'' @ [0xFF11, 0xFF12, 0xFF13, 0xFF14, 0xFF15, 0xFF16, 0xFF17, 0xFF18]"
  have e: "extraer_telefono ascii_word (Some toy_phonenumbers)
       (ustr ''OBSERVACIONES MANUALES: tel +33612345678'')
     = Some (ustr ''+33612345678'')"
    by code_simp
  have s: "startswith (ustr ''+33612345678'') (ustr ''+'')"
    by code_simp
  from extraer_telefono_result_is_mobile[OF e]
  have "es_movil (Some toy_phonenumbers) (ustr ''+33612345678'') = Inr True"
    and "if startswith (ustr ''+33612345678'') (ustr ''+'')
        then list_all is_digit (drop 1 (ustr ''+33612345678''))
             \<and> 8 \<le> length (ustr ''+33612345678'') - 1
             \<and> length (ustr ''+33612345678'') - 1 \<le> 15
        else length (ustr ''+33612345678'') = 9 \<and> list_all is_digit (ustr ''+33612345678'')
             \<and> ustr ''+33612345678'' ! 0 \<in> set (ustr ''67'')"
    by blast+
  then have r: "es_movil (Some toy_phonenumbers) (ustr ''+33612345678'') = Inr True"
    and r': "list_all is_digit (drop 1 (ustr ''+33612345678''))
       \<and> 8 \<le> length (ustr ''+33612345678'') - 1 \<and> length (ustr ''+33612345678'') - 1 \<le> 15"
    using s by (simp_all only: if_True)
  have e2: "extraer_telefono ascii_word (Some toy_phonenumbers)
       (ustr ''DESCRIPCION: 6'' @ [0xFF11, 0xFF12, 0xFF13, 0xFF14, 0xFF15, 0xFF16, 0xFF17, 0xFF18]) = Some ?u"
    by code_simp
  have s2: "\<not> startswith ?u (ustr ''+'')"
    by code_simp
  from extraer_telefono_result_is_mobile[OF e2]
  have "es_movil (Some toy_phonenumbers) ?u = Inr True"
    and "if startswith ?u (ustr ''+'')
        then list_all is_digit (drop 1 ?u) \<and> 8 \<le> length ?u - 1 \<and> length ?u - 1 \<le> 15
        else length ?u = 9 \<and> list_all is_digit ?u \<and> ?u ! 0 \<in> set (ustr ''67'')"
    by blast+
  then have q: "es_movil (Some toy_phonenumbers) ?u = Inr True"
    and q': "length ?u = 9 \<and> list_all is_digit ?u \<and> ?u ! 0 \<in> set (ustr ''67'')"
    using s2 by (simp_all only: if_False)
  from q' have q'': "list_all is_digit ?u"
    by blast
  from r' have r1: "list_all is_digit (drop 1 (ustr ''+33612345678''))"
    and r2: "8 \<le> length (ustr ''+33612345678'') - 1"
    and r3: "length (ustr ''+33612345678'') - 1 \<le> 15"
    by blast+
  show ?thesis
    by (intro conjI e r s r1 r2 r3 e2 q q'')
qed

section \<open>The library at run time\<close>

text \<open>
  The branches of \<open>_es_movil\<close> for a \<open>+\<close> number: when the global name holds
  \<open>None\<close> every such number is accepted, and a \<open>NumberParseException\<close> of
  \<open>parse\<close> is a rejection.
\<close>

lemma es_movil_fallback: "es_movil None (ord CHR ''+'' # d) = Inr True"
  by (simp add: es_movil_def startswith_def)

lemma es_movil_parse_error:
  "parse lib (ord CHR ''+'' # d) = Inl NumberParseException \<Longrightarrow>
     es_movil (Some lib) (ord CHR ''+'' # d) = Inr False"
  by (simp add: es_movil_def startswith_def)

text \<open>
  C9. When the library is not installed the import at the top of the module raises, so
  no text is ever processed; and after an import that succeeds the global name is bound
  to the library, so the branch of \<open>_es_movil\<close> for a missing library is never taken.
\<close>

theorem phonenumbers_missing_import_fails:
  "run_extraer_telefono w None texto = Inl ModuleNotFoundError
   \<and> load_ficha_module installed \<noteq> Inr None"
  by (cases installed)
     (simp_all add: run_extraer_telefono_def load_ficha_module_def import_phonenumbers_def)

end
